theory Spec2Isabelle
  imports Complex_Main
begin

section \<open>Strings as the converter uses them\<close>

text \<open>
  The source is \<^verbatim>\<open>utils/epubToPdf.ts\<close>.  JavaScript strings are modelled as
  \<^typ>\<open>string\<close>; the development covers ASCII text, so \<^verbatim>\<open>length\<close> counts
  characters as \<^verbatim>\<open>String.length\<close> does, \<^verbatim>\<open>\s\<close> and \<^verbatim>\<open>trim\<close> see the six ASCII
  white-space characters, and \<^verbatim>\<open>toLowerCase\<close> maps \<^verbatim>\<open>A-Z\<close> only.
\<close>

text \<open>\<^verbatim>\<open>s.split(c)\<close> for a one-character separator: never empty, \<^verbatim>\<open>"".split(c)\<close> is \<^verbatim>\<open>[""]\<close>.\<close>

fun split_on :: "char \<Rightarrow> string \<Rightarrow> string list" where
  "split_on c [] = [[]]"
| "split_on c (x # xs) =
     (if x = c then [] # split_on c xs
      else (case split_on c xs of
              [] \<Rightarrow> [[x]]
            | p # ps \<Rightarrow> (x # p) # ps))"

text \<open>\<^verbatim>\<open>parts.join(c)\<close>.\<close>

fun join_with :: "char \<Rightarrow> string list \<Rightarrow> string" where
  "join_with c [] = []"
| "join_with c [p] = p"
| "join_with c (p # q # ps) = p @ c # join_with c (q # ps)"

definition startsWith :: "string \<Rightarrow> string \<Rightarrow> bool" where
  "startsWith s pre = (take (length pre) s = pre)"

text \<open>\<^verbatim>\<open>s.includes(sub)\<close>: \<^verbatim>\<open>sub\<close> occurs somewhere in \<^verbatim>\<open>s\<close>.\<close>

fun str_includes :: "string \<Rightarrow> string \<Rightarrow> bool" where
  "str_includes [] sub = (sub = [])"
| "str_includes (c # cs) sub = (take (length sub) (c # cs) = sub \<or> str_includes cs sub)"

definition lower_char :: "char \<Rightarrow> char" where
  "lower_char c =
     (case map_of (zip ''ABCDEFGHIJKLMNOPQRSTUVWXYZ'' ''abcdefghijklmnopqrstuvwxyz'') c of
        Some l \<Rightarrow> l
      | None \<Rightarrow> c)"

definition toLowerCase :: "string \<Rightarrow> string" where
  "toLowerCase s = map lower_char s"

definition is_space :: "char \<Rightarrow> bool" where
  "is_space c = (c \<in> set [CHR 0x09, CHR 0x0A, CHR 0x0B, CHR 0x0C, CHR 0x0D, CHR 0x20])"

text \<open>\<^verbatim>\<open>s.replace(/\s+/g, ' ')\<close>; the flag says whether the previous character was white space.\<close>

fun collapse_from :: "bool \<Rightarrow> string \<Rightarrow> string" where
  "collapse_from prev [] = []"
| "collapse_from prev (c # cs) =
     (if is_space c
      then (if prev then collapse_from True cs else CHR '' '' # collapse_from True cs)
      else c # collapse_from False cs)"

definition collapse_ws :: "string \<Rightarrow> string" where
  "collapse_ws s = collapse_from False s"

definition trim :: "string \<Rightarrow> string" where
  "trim s = rev (dropWhile is_space (rev (dropWhile is_space s)))"

section \<open>Errors\<close>

text \<open>
  One constructor for each \<^verbatim>\<open>throw\<close> of \<^verbatim>\<open>convertEpubToPdf\<close> and \<^verbatim>\<open>getFontBase64\<close>, and
  for the rejections of the library calls they await:
  \<^item> \<^verbatim>\<open>FontDownloadFailed\<close>: "Failed to download font. ..." (line 85);
  \<^item> \<^verbatim>\<open>ZipLoadFailed\<close>: \<^verbatim>\<open>JSZip.loadAsync\<close> rejects (line 103);
  \<^item> \<^verbatim>\<open>MissingContainer\<close>: "Invalid EPUB: Missing META-INF/container.xml" (line 107);
  \<^item> \<^verbatim>\<open>OpfPathNotFound\<close>: "Invalid EPUB: Could not find OPF path" (line 111);
  \<^item> \<^verbatim>\<open>OpfFileMissing\<close>: "Invalid EPUB: OPF file missing" (line 119);
  \<^item> \<^verbatim>\<open>NoChaptersFound\<close>: "Could not find any chapters in this EPUB. ..." (line 177);
  \<^item> \<^verbatim>\<open>URIError\<close>: \<^verbatim>\<open>decodeURIComponent\<close> throws (line 222).
\<close>

datatype error =
    FontDownloadFailed
  | ZipLoadFailed
  | MissingContainer
  | OpfPathNotFound
  | OpfFileMissing
  | NoChaptersFound
  | URIError

text \<open>The error kinds of the specification (section 7), as a classification of the throws.\<close>

datatype error_kind = MalformedArchive | NoChapters | FontUnavailable | OtherFailure

fun kind_of :: "error \<Rightarrow> error_kind" where
  "kind_of FontDownloadFailed = FontUnavailable"
| "kind_of MissingContainer = MalformedArchive"
| "kind_of OpfPathNotFound = MalformedArchive"
| "kind_of OpfFileMissing = MalformedArchive"
| "kind_of NoChaptersFound = NoChapters"
| "kind_of ZipLoadFailed = OtherFailure"
| "kind_of URIError = OtherFailure"

section \<open>JavaScript numbers\<close>

text \<open>
  A JavaScript number is an IEEE 754 double.  Numbers are modelled as the real numbers
  they denote, and \<open>double_of x\<close> is the double nearest to \<open>x\<close>, ties going to the
  even significand.  In \<open>[2^52, 2^53)\<close> the doubles are the integers; a smaller
  magnitude is doubled until it gets there, at most 1074 times (after which the
  subnormal grid of \<open>2^-1074\<close> is reached), and a larger one is halved.  The two
  literals below are \<open>2^52\<close> and \<open>2^53\<close>.  \<^verbatim>\<open>NaN\<close>, the infinities and the sign of zero
  are outside the model: a magnitude of \<open>2^1024\<close> or more is rounded on the grid of the
  last binade instead of overflowing.
\<close>

definition round_half_even :: "real \<Rightarrow> int" where
  "round_half_even x =
     (let f = \<lfloor>x\<rfloor>; d = x - of_int f
      in if d < 1 / 2 then f else if 1 / 2 < d then f + 1 else if even f then f else f + 1)"

fun round_small :: "nat \<Rightarrow> real \<Rightarrow> real" where
  "round_small 0 x = of_int (round_half_even x)"
| "round_small (Suc k) x =
     (if 4503599627370496 \<le> x then of_int (round_half_even x)
      else round_small k (2 * x) / 2)"

fun round_big :: "nat \<Rightarrow> real \<Rightarrow> real" where
  "round_big 0 x = of_int (round_half_even x)"
| "round_big (Suc k) x =
     (if x < 9007199254740992 then of_int (round_half_even x)
      else 2 * round_big k (x / 2))"

definition round_magnitude :: "real \<Rightarrow> real" where
  "round_magnitude x =
     (if 9007199254740992 \<le> x then round_big 971 x else round_small 1074 x)"

definition double_of :: "real \<Rightarrow> real" where
  "double_of x = (if x < 0 then - round_magnitude (- x) else round_magnitude x)"

section \<open>The path resolver\<close>

text \<open>
  The \<^verbatim>\<open>for (const part of parts)\<close> loop of \<^verbatim>\<open>resolveImagePath\<close>.  The stack is a
  JavaScript array: \<^verbatim>\<open>push\<close> appends at the end and \<^verbatim>\<open>pop\<close> removes the last element.
\<close>

fun walk_parts :: "string list \<Rightarrow> string list \<Rightarrow> string list" where
  "walk_parts stack [] = stack"
| "walk_parts stack (part # parts) =
     (if part = ''.'' \<or> part = [] then walk_parts stack parts
      else if part = ''..''
      then walk_parts (if length stack > 0 then butlast stack else stack) parts
      else walk_parts (stack @ [part]) parts)"

text \<open>
  \<^verbatim>\<open>resolveImagePath\<close> (lines 204-223).  \<^verbatim>\<open>decodeURIComponent\<close> is the JavaScript
  built-in; it is a parameter, \<^verbatim>\<open>None\<close> standing for the \<^verbatim>\<open>URIError\<close> it throws on a
  malformed escape.  The result \<^verbatim>\<open>Inr None\<close> is the \<^verbatim>\<open>null\<close> of line 205.
\<close>

definition resolveImagePath ::
  "(string \<Rightarrow> string option) \<Rightarrow> string \<Rightarrow> string \<Rightarrow> error + string option" where
  "resolveImagePath decodeURIComponent currentFilePath relativeSrc =
     (if relativeSrc = [] \<or> startsWith relativeSrc ''http'' then Inr None
      else
        let cleanSrc = hd (split_on CHR ''#'' relativeSrc);
            stack = butlast (split_on CHR ''/'' currentFilePath);
            parts = split_on CHR ''/'' cleanSrc
        in (case decodeURIComponent (join_with CHR ''/'' (walk_parts stack parts)) of
              None \<Rightarrow> Inl URIError
            | Some p \<Rightarrow> Inr (Some p)))"

section \<open>The content linearizer\<close>

text \<open>
  A DOM node: an element with its \<^verbatim>\<open>tagName\<close>, attributes and child nodes, a text node
  with its \<^verbatim>\<open>textContent\<close>, or a node of another type (comment, processing instruction).
\<close>

datatype node =
    Element string "(string \<times> string) list" "node list"
  | TextNode string
  | OtherNode

datatype content_item = TextItem string | ImageItem string | NewlineItem

definition getAttribute :: "(string \<times> string) list \<Rightarrow> string \<Rightarrow> string option" where
  "getAttribute attrs name = map_of attrs name"

text \<open>\<^verbatim>\<open>a || b\<close> on values that are a string or \<^verbatim>\<open>null\<close>: the empty string is falsy.\<close>

definition js_or :: "string option \<Rightarrow> string option \<Rightarrow> string option" where
  "js_or a b = (case a of Some (c # cs) \<Rightarrow> a | _ \<Rightarrow> b)"

definition truthy :: "string option \<Rightarrow> bool" where
  "truthy a = (case a of Some (c # cs) \<Rightarrow> True | _ \<Rightarrow> False)"

definition image_src :: "(string \<times> string) list \<Rightarrow> content_item list" where
  "image_src attrs =
     (let src = js_or (getAttribute attrs ''src'') (getAttribute attrs ''xlink:href'')
      in if truthy src then [ImageItem (the src)] else [])"

definition is_heading :: "string \<Rightarrow> bool" where
  "is_heading tag = (tag \<in> set [''h1'', ''h2'', ''h3'', ''h4'', ''h5'', ''h6''])"

definition block_tags :: "string list" where
  "block_tags = [''p'', ''div'', ''li'', ''h1'', ''h2'', ''h3'', ''h4'', ''h5'', ''h6'',
                 ''blockquote'', ''section'', ''article'']"

definition skipped_tags :: "string list" where
  "skipped_tags = [''head'', ''style'', ''script'', ''title'', ''meta'', ''link'']"

text \<open>The descendants of a node in document order, for \<^verbatim>\<open>querySelector\<close>.\<close>

fun descendants :: "node \<Rightarrow> node list" where
  "descendants (Element t as kids) = concat (map (\<lambda>k. k # descendants k) kids)"
| "descendants (TextNode s) = []"
| "descendants OtherNode = []"

fun is_image_element :: "node \<Rightarrow> bool" where
  "is_image_element (Element t as kids) = (toLowerCase t = ''image'' \<or> toLowerCase t = ''img'')"
| "is_image_element (TextNode s) = False"
| "is_image_element OtherNode = False"

fun node_attrs :: "node \<Rightarrow> (string \<times> string) list" where
  "node_attrs (Element t as kids) = as"
| "node_attrs (TextNode s) = []"
| "node_attrs OtherNode = []"

text \<open>\<^verbatim>\<open>traverse\<close> (lines 251-297); the result is what it pushes onto \<^verbatim>\<open>items\<close>.\<close>

fun traverse :: "node \<Rightarrow> content_item list" where
  "traverse (Element tagName attrs childNodes) =
     (let tag = toLowerCase tagName in
      if tag \<in> set skipped_tags then []
      else if tag = ''img'' \<or> tag = ''image'' then image_src attrs
      else if tag = ''svg'' then
        (case filter is_image_element (descendants (Element tagName attrs childNodes)) of
           [] \<Rightarrow> []
         | innerImg # rest \<Rightarrow> image_src (node_attrs innerImg))
      else
        (if is_heading tag then [NewlineItem, NewlineItem] else [])
        @ concat (map traverse childNodes)
        @ (if tag \<in> set block_tags then [NewlineItem] else [])
        @ (if tag = ''br'' then [NewlineItem] else []))"
| "traverse (TextNode textContent) =
     (let text = collapse_ws textContent in
      if text \<noteq> [] \<and> length text > 0 \<and> length (trim text) > 0 then [TextItem text] else [])"
| "traverse OtherNode = []"

section \<open>The package document\<close>

fun is_element :: "node \<Rightarrow> bool" where
  "is_element (Element t as kids) = True"
| "is_element (TextNode s) = False"
| "is_element OtherNode = False"

fun tag_of :: "node \<Rightarrow> string" where
  "tag_of (Element t as kids) = t"
| "tag_of (TextNode s) = []"
| "tag_of OtherNode = []"

fun child_nodes :: "node \<Rightarrow> node list" where
  "child_nodes (Element t as kids) = kids"
| "child_nodes (TextNode s) = []"
| "child_nodes OtherNode = []"

text \<open>\<^verbatim>\<open>localName\<close>: the qualified name without its namespace prefix.\<close>

definition localName :: "node \<Rightarrow> string" where
  "localName n =
     (let t = tag_of n in
      if CHR '':'' \<in> set t then drop 1 (dropWhile (\<lambda>c. c \<noteq> CHR '':'') t) else t)"

text \<open>
  A parsed XML document is given by its document element.
  \<^verbatim>\<open>doc.getElementsByTagName(name)\<close> lists, in document order, the elements of
  the document whose qualified name is \<^verbatim>\<open>name\<close>;
  \<^verbatim>\<open>doc.getElementsByTagNameNS("*", name)\<close> compares the local name.
\<close>

definition doc_elements :: "node \<Rightarrow> node list" where
  "doc_elements d = filter is_element (d # descendants d)"

definition getElementsByTagName :: "node \<Rightarrow> string \<Rightarrow> node list" where
  "getElementsByTagName d name = filter (\<lambda>n. tag_of n = name) (doc_elements d)"

definition getElementsByTagNameNS_any :: "node \<Rightarrow> string \<Rightarrow> node list" where
  "getElementsByTagNameNS_any d name = filter (\<lambda>n. localName n = name) (doc_elements d)"

text \<open>\<^verbatim>\<open>el.children\<close>: the child nodes that are elements.\<close>

definition children :: "node \<Rightarrow> node list" where
  "children n = filter is_element (child_nodes n)"

text \<open>\<^verbatim>\<open>xs[0] || ys[0]\<close> on element lists: \<^verbatim>\<open>None\<close> is \<^verbatim>\<open>undefined\<close>.\<close>

definition first_of :: "node list \<Rightarrow> node list \<Rightarrow> node option" where
  "first_of xs ys =
     (case xs of x # rest \<Rightarrow> Some x
      | [] \<Rightarrow> (case ys of y # rest \<Rightarrow> Some y | [] \<Rightarrow> None))"

text \<open>
  Lines 134-144 and 156-166: the elements named \<^verbatim>\<open>name\<close>, or, when there is none,
  the children locally named \<^verbatim>\<open>name\<close> of the first \<^verbatim>\<open>parent\<close> element.
\<close>

definition tagged_or_fallback :: "node \<Rightarrow> string \<Rightarrow> string \<Rightarrow> node list" where
  "tagged_or_fallback opfDoc name parent =
     (let items = getElementsByTagName opfDoc name in
      if length items = 0 then
        (case first_of (getElementsByTagName opfDoc parent)
                       (getElementsByTagNameNS_any opfDoc parent) of
           None \<Rightarrow> items
         | Some parentTag \<Rightarrow>
             items @ filter (\<lambda>child. localName child = name) (children parentTag))
      else items)"

text \<open>
  Lines 146-152: \<^verbatim>\<open>manifest[id] = href\<close> for the items that have both attributes.  The
  manifest is a plain object (line 132): its own properties are a finite map from ids to
  hrefs.  An assignment to \<^verbatim>\<open>__proto__\<close> goes to the setter inherited from
  \<^verbatim>\<open>Object.prototype\<close>, which ignores a string: it creates no own property.
\<close>

definition add_item :: "(string \<rightharpoonup> string) \<Rightarrow> node \<Rightarrow> (string \<rightharpoonup> string)" where
  "add_item manifest item =
     (let itemId = getAttribute (node_attrs item) ''id'';
          href = getAttribute (node_attrs item) ''href''
      in if truthy itemId \<and> truthy href \<and> the itemId \<noteq> ''__proto__''
         then manifest(the itemId \<mapsto> the href)
         else manifest)"

definition build_manifest :: "node \<Rightarrow> (string \<rightharpoonup> string)" where
  "build_manifest opfDoc = foldl add_item Map.empty (tagged_or_fallback opfDoc ''item'' ''manifest'')"

text \<open>Lines 155-173: the \<^verbatim>\<open>idref\<close> of every itemref that has a non-empty one, in order.\<close>

definition idref_of :: "node \<Rightarrow> string list" where
  "idref_of itemref =
     (let idref = getAttribute (node_attrs itemref) ''idref''
      in if truthy idref then [the idref] else [])"

definition spine_ids :: "node \<Rightarrow> string list" where
  "spine_ids opfDoc = concat (map idref_of (tagged_or_fallback opfDoc ''itemref'' ''spine''))"

text \<open>
  \<^verbatim>\<open>containerXml.match(/full-path="([^"]+)"/)\<close>, the captured group of the leftmost match:
  the literal, then a non-empty run of characters other than the quote, then a quote.
\<close>

definition quote :: char where
  "quote = CHR 0x22"

definition full_path_literal :: string where
  "full_path_literal = ''full-path='' @ [quote]"

fun match_full_path :: "string \<Rightarrow> string option" where
  "match_full_path [] = None"
| "match_full_path (c # cs) =
     (if startsWith (c # cs) full_path_literal then
        (let rest = drop (length full_path_literal) (c # cs);
             captured = takeWhile (\<lambda>x. x \<noteq> quote) rest;
             closing = dropWhile (\<lambda>x. x \<noteq> quote) rest
         in if captured \<noteq> [] \<and> closing \<noteq> [] then Some captured else match_full_path cs)
      else match_full_path cs)"

text \<open>Line 113: everything up to and including the last slash of the path, or nothing.\<close>

definition opf_dir :: "string \<Rightarrow> string" where
  "opf_dir opfPath =
     (if CHR ''/'' \<in> set opfPath
      then rev (dropWhile (\<lambda>c. c \<noteq> CHR ''/'') (rev opfPath))
      else [])"

section \<open>The environment of a conversion\<close>

text \<open>
  An opened archive: entry names with their contents.  \<^verbatim>\<open>zip.file(name)\<close> is the entry
  or \<^verbatim>\<open>null\<close>; reading an entry (\<^verbatim>\<open>async("string")\<close>, \<^verbatim>\<open>async("base64")\<close>) gives its
  content, and the base64 form of a content is identified with the content.
\<close>

type_synonym archive = "(string \<times> string) list"

definition zip_file :: "archive \<Rightarrow> string \<Rightarrow> string option" where
  "zip_file z name = map_of z name"

text \<open>A parsed HTML document: \<^verbatim>\<open>docHtml.body\<close> (possibly \<^verbatim>\<open>null\<close>) and \<^verbatim>\<open>docHtml.documentElement\<close>.\<close>

record html_doc =
  body :: "node option"
  documentElement :: node

text \<open>
  The library calls and library constants the converter depends on; none of them is code
  of the repository, so they are parameters:
  \<^item> \<^verbatim>\<open>fetch\<close>: the body of the response for a URL, \<^verbatim>\<open>None\<close> when the request fails, the
    response is not ok or its body cannot be read;
  \<^item> \<^verbatim>\<open>btoa\<close>: base64 encoding;
  \<^item> \<^verbatim>\<open>loadAsync\<close>: \<^verbatim>\<open>JSZip.loadAsync\<close> on the bytes of the file, \<^verbatim>\<open>None\<close> when it rejects;
  \<^item> \<^verbatim>\<open>parseXml\<close>, \<^verbatim>\<open>parseHtml\<close>: \<^verbatim>\<open>DOMParser.parseFromString\<close> for the two MIME types;
  \<^item> \<^verbatim>\<open>splitTextToSize\<close>, \<^verbatim>\<open>getImageProperties\<close> (\<^verbatim>\<open>None\<close> when it throws), \<^verbatim>\<open>addImage\<close>
    (\<^verbatim>\<open>False\<close> when it throws): jsPDF;
  \<^item> \<^verbatim>\<open>decodeURIComponent\<close>: the built-in, \<^verbatim>\<open>None\<close> when it throws;
  \<^item> \<^verbatim>\<open>pageHeight\<close>, \<^verbatim>\<open>pageWidth\<close>: \<^verbatim>\<open>doc.internal.pageSize\<close>;
  \<^item> \<^verbatim>\<open>objectPrototype\<close>: for the name of a property of \<^verbatim>\<open>Object.prototype\<close>
    (\<^verbatim>\<open>constructor\<close>, \<^verbatim>\<open>toString\<close>, \<^verbatim>\<open>__proto__\<close> and the others), the string its value
    becomes when it is appended to a string; \<^verbatim>\<open>None\<close> for every other name.
  The quotients and products of the source, and the content width, are rounded to
  doubles (\<open>double_of\<close>); the sums and differences on the cursor \<^verbatim>\<open>y\<close> and the page
  height are kept exact.
\<close>

record env =
  fetch :: "string \<Rightarrow> string option"
  btoa :: "string \<Rightarrow> string"
  loadAsync :: "string \<Rightarrow> archive option"
  parseXml :: "string \<Rightarrow> node"
  parseHtml :: "string \<Rightarrow> html_doc"
  splitTextToSize :: "string \<Rightarrow> real \<Rightarrow> string list"
  getImageProperties :: "string \<Rightarrow> (nat \<times> nat) option"
  addImage :: "string \<Rightarrow> string \<Rightarrow> bool"
  decodeURIComponent :: "string \<Rightarrow> string option"
  pageHeight :: real
  pageWidth :: real
  objectPrototype :: "string \<Rightarrow> string option"

text \<open>What a conversion does to the outside, in the order it does it.\<close>

datatype effect = OnProgress int | FetchUrl string | NewJsPDF

section \<open>The font\<close>

record font_state =
  cachedFontBase64 :: "string option"
  isUserProvided :: bool

definition FONT_URLS :: "string list" where
  "FONT_URLS =
     [''https://cdn.jsdelivr.net/gh/lxgw/LxgwWenKai-Lite@v1.3.2/LXGWWenKaiLite-Regular.ttf'',
      ''https://raw.githubusercontent.com/lxgw/LxgwWenKai-Lite/main/LXGWWenKaiLite-Regular.ttf'']"

text \<open>
  The loop of lines 57-83: the URLs are fetched in order until one answers; the result is
  the font of the first that does, with the requests made.
\<close>

fun download_font :: "env \<Rightarrow> string list \<Rightarrow> string option \<times> effect list" where
  "download_font e [] = (None, [])"
| "download_font e (url # urls) =
     (case fetch e url of
        Some buffer \<Rightarrow> (Some (btoa e buffer), [FetchUrl url])
      | None \<Rightarrow> (let (r, fx) = download_font e urls in (r, FetchUrl url # fx)))"

text \<open>\<^verbatim>\<open>getFontBase64\<close> (lines 47-86); an empty cached string is falsy.\<close>

definition getFontBase64 :: "env \<Rightarrow> font_state \<Rightarrow> (error + string) \<times> font_state \<times> effect list" where
  "getFontBase64 e fs =
     (if truthy (cachedFontBase64 fs) then (Inr (the (cachedFontBase64 fs)), fs, [])
      else
        (case download_font e FONT_URLS of
           (Some font, fx) \<Rightarrow>
             (Inr font, fs\<lparr>cachedFontBase64 := Some font, isUserProvided := False\<rparr>, fx)
         | (None, fx) \<Rightarrow> (Inl FontDownloadFailed, fs, fx)))"

section \<open>The page renderer\<close>

text \<open>
  The calls that change the output document: \<^verbatim>\<open>doc.addPage()\<close>,
  \<^verbatim>\<open>doc.text(line, x, y)\<close> and \<^verbatim>\<open>doc.addImage(data, format, x, y, w, h)\<close>.
\<close>

datatype draw =
    AddPage
  | DrawText string real real
  | DrawImage string string real real real real

text \<open>The variables \<^verbatim>\<open>y\<close> and \<^verbatim>\<open>fullTextPreview\<close> of the conversion, and the document.\<close>

record pdf_state =
  y_pos :: real
  ops :: "draw list"
  fullTextPreview :: string

definition margin :: real where
  "margin = 20"

definition lineHeight :: real where
  "lineHeight = 7"

definition maxLineWidth :: "env \<Rightarrow> real" where
  "maxLineWidth e = double_of (pageWidth e - margin * 2)"

definition addNewPage :: "pdf_state \<Rightarrow> pdf_state" where
  "addNewPage s = s\<lparr>ops := ops s @ [AddPage], y_pos := margin\<rparr>"

text \<open>The body of the loop over the wrapped lines (lines 320-322 and 380-382).\<close>

definition place_line :: "env \<Rightarrow> string \<Rightarrow> pdf_state \<Rightarrow> pdf_state" where
  "place_line e line s =
     (let s1 = (if y_pos s + lineHeight > pageHeight e - margin then addNewPage s else s)
      in s1\<lparr>ops := ops s1 @ [DrawText line margin (y_pos s1)],
              y_pos := y_pos s1 + lineHeight\<rparr>)"

fun place_lines :: "env \<Rightarrow> string list \<Rightarrow> pdf_state \<Rightarrow> pdf_state" where
  "place_lines e [] s = s"
| "place_lines e (line # lines) s = place_lines e lines (place_line e line s)"

text \<open>Flushing the text buffer (lines 315-327 and 375-386).\<close>

definition flush_text :: "env \<Rightarrow> string \<Rightarrow> pdf_state \<Rightarrow> pdf_state" where
  "flush_text e textBuffer s =
     (if textBuffer \<noteq> [] then
        (let cleanText = trim textBuffer in
         if cleanText \<noteq> [] then
           (let s1 = place_lines e (splitTextToSize e cleanText (maxLineWidth e)) s
            in if length (fullTextPreview s1) < 15000
               then s1\<lparr>fullTextPreview := fullTextPreview s1 @ cleanText @ [CHR 0x0A]\<rparr>
               else s1)
         else s)
      else s)"

text \<open>Lines 342-346: the format from the text after the last dot of the path.\<close>

definition image_format :: "string \<Rightarrow> string" where
  "image_format imgPath =
     (let lowered = toLowerCase (last (split_on CHR ''.'' imgPath));
          ext = (if lowered = [] then ''jpg'' else lowered);
          format1 = (if str_includes ext ''png'' then ''PNG'' else ''JPEG'');
          format2 = (if str_includes ext ''webp'' then ''WEBP'' else format1)
      in if str_includes ext ''bmp'' then ''BMP'' else format2)"

text \<open>
  Line 353, \<^verbatim>\<open>Math.min(maxLineWidth / imgW, 1)\<close>, the quotient being a double.  For a
  width of zero the quotient of a positive content width is \<^verbatim>\<open>Infinity\<close> and the minimum
  is 1.
\<close>

definition scaleFactor :: "env \<Rightarrow> nat \<Rightarrow> real" where
  "scaleFactor e imgW =
     (if imgW = 0 then 1 else min (double_of (maxLineWidth e / real imgW)) 1)"

text \<open>Lines 354-355: the scaled width and height, each product a double.\<close>

definition finalW :: "env \<Rightarrow> nat \<Rightarrow> real" where
  "finalW e imgW = double_of (real imgW * scaleFactor e imgW)"

definition finalH :: "env \<Rightarrow> nat \<Rightarrow> nat \<Rightarrow> real" where
  "finalH e imgW imgH = double_of (real imgH * scaleFactor e imgW)"

text \<open>Lines 357-362: the page break, the placement and the advance of the cursor.\<close>

definition place_image :: "env \<Rightarrow> string \<Rightarrow> string \<Rightarrow> nat \<Rightarrow> nat \<Rightarrow> pdf_state \<Rightarrow> pdf_state" where
  "place_image e imgData format imgW imgH s =
     (let s1 = (if y_pos s + finalH e imgW imgH > pageHeight e - margin
                then addNewPage s else s)
      in if addImage e imgData format
         then s1\<lparr>ops := ops s1 @ [DrawImage imgData format margin (y_pos s1)
                                      (finalW e imgW) (finalH e imgW imgH)],
                 y_pos := y_pos s1 + finalH e imgW imgH + lineHeight\<rparr>
         else s1)"

text \<open>
  Lines 335-369.  Whatever is thrown inside the \<^verbatim>\<open>try\<close> is caught and logged, and the
  state is what it was when the exception was thrown.
\<close>

definition render_image :: "env \<Rightarrow> archive \<Rightarrow> string \<Rightarrow> string \<Rightarrow> pdf_state \<Rightarrow> pdf_state" where
  "render_image e z fullPath src s =
     (case resolveImagePath (decodeURIComponent e) fullPath src of
        Inl err \<Rightarrow> s
      | Inr None \<Rightarrow> s
      | Inr (Some imgPath) \<Rightarrow>
          (if imgPath = [] then s
           else
             (case zip_file z imgPath of
                None \<Rightarrow> s
              | Some imgData \<Rightarrow>
                  (case getImageProperties e imgData of
                     None \<Rightarrow> s
                   | Some (imgW, imgH) \<Rightarrow>
                       place_image e imgData (image_format imgPath) imgW imgH s))))"

text \<open>One turn of the render loop (lines 309-372) on the text buffer and the state.\<close>

fun render_item ::
  "env \<Rightarrow> archive \<Rightarrow> string \<Rightarrow> content_item \<Rightarrow> string \<times> pdf_state \<Rightarrow> string \<times> pdf_state" where
  "render_item e z fullPath (TextItem v) (textBuffer, s) = (textBuffer @ v, s)"
| "render_item e z fullPath NewlineItem (textBuffer, s) =
     (let s1 = flush_text e textBuffer s;
          s2 = s1\<lparr>y_pos := y_pos s1 + lineHeight * 0.5\<rparr>
      in ([], if y_pos s2 > pageHeight e - margin then addNewPage s2 else s2))"
| "render_item e z fullPath (ImageItem v) (textBuffer, s) =
     ([], render_image e z fullPath v (flush_text e textBuffer s))"

fun render_items ::
  "env \<Rightarrow> archive \<Rightarrow> string \<Rightarrow> content_item list \<Rightarrow> string \<times> pdf_state \<Rightarrow> string \<times> pdf_state" where
  "render_items e z fullPath [] bs = bs"
| "render_items e z fullPath (item # items) bs =
     render_items e z fullPath items (render_item e z fullPath item bs)"

text \<open>Lines 237-390: one chapter whose file is in the archive.\<close>

definition render_chapter :: "env \<Rightarrow> archive \<Rightarrow> string \<Rightarrow> string \<Rightarrow> pdf_state \<Rightarrow> pdf_state" where
  "render_chapter e z fullPath content s =
     (let docHtml = parseHtml e content;
          items = traverse (case body docHtml of Some b \<Rightarrow> b | None \<Rightarrow> documentElement docHtml);
          (textBuffer, s1) = render_items e z fullPath items ([], s);
          s2 = flush_text e textBuffer s1
      in if y_pos s2 < pageHeight e - margin
         then s2\<lparr>y_pos := y_pos s2 + lineHeight * 2\<rparr>
         else addNewPage s2)"

section \<open>The conversion\<close>

record loop_state =
  pdf :: pdf_state
  processedChapters :: nat
  reported :: "effect list"

text \<open>
  \<^verbatim>\<open>manifest[id]\<close> (line 230): an own property is the href stored for the id; otherwise
  the property is looked up in \<^verbatim>\<open>Object.prototype\<close>, whose values are functions and
  objects; otherwise the value is \<^verbatim>\<open>undefined\<close>.
\<close>

datatype js_value = JsUndefined | JsString string | JsObject string

definition manifest_get :: "env \<Rightarrow> (string \<rightharpoonup> string) \<Rightarrow> string \<Rightarrow> js_value" where
  "manifest_get e manifest name =
     (case manifest name of
        Some href \<Rightarrow> JsString href
      | None \<Rightarrow>
          (case objectPrototype e name of
             Some shown \<Rightarrow> JsObject shown
           | None \<Rightarrow> JsUndefined))"

text \<open>
  Line 394: \<^verbatim>\<open>20 + Math.floor((processedChapters / totalChapters) * 75)\<close>, the quotient and
  the product being doubles.
\<close>

definition chapter_percent :: "nat \<Rightarrow> nat \<Rightarrow> int" where
  "chapter_percent n totalChapters =
     20 + \<lfloor>double_of (double_of (real n / real totalChapters) * 75)\<rfloor>"

text \<open>
  Lines 233-394: a chapter whose href is \<^verbatim>\<open>href\<close>, or whose inherited value is shown as
  \<^verbatim>\<open>href\<close> when it is appended to the directory.
\<close>

definition process_href ::
  "env \<Rightarrow> archive \<Rightarrow> string \<Rightarrow> nat \<Rightarrow> string \<Rightarrow> loop_state \<Rightarrow> loop_state" where
  "process_href e z opfDir totalChapters href st =
     (let fullPath = opfDir @ href;
          pdf1 = (case zip_file z fullPath of
                    Some content \<Rightarrow> render_chapter e z fullPath content (pdf st)
                  | None \<Rightarrow> pdf st);
          n = processedChapters st + 1
      in \<lparr>pdf = pdf1, processedChapters = n,
          reported = reported st @ [OnProgress (chapter_percent n totalChapters)]\<rparr>)"

text \<open>
  The body of the loop over the spine (lines 229-395).  Line 231 skips the values that are
  falsy: \<^verbatim>\<open>undefined\<close> and the empty string; a function or an object is truthy.
\<close>

definition process_chapter ::
  "env \<Rightarrow> archive \<Rightarrow> (string \<rightharpoonup> string) \<Rightarrow> string \<Rightarrow> nat \<Rightarrow> string \<Rightarrow> loop_state \<Rightarrow> loop_state" where
  "process_chapter e z manifest opfDir totalChapters spineId st =
     (case manifest_get e manifest spineId of
        JsUndefined \<Rightarrow> st
      | JsString href \<Rightarrow>
          (if href = [] then st else process_href e z opfDir totalChapters href st)
      | JsObject shown \<Rightarrow> process_href e z opfDir totalChapters shown st)"

fun process_chapters ::
  "env \<Rightarrow> archive \<Rightarrow> (string \<rightharpoonup> string) \<Rightarrow> string \<Rightarrow> nat \<Rightarrow> string list \<Rightarrow> loop_state \<Rightarrow> loop_state" where
  "process_chapters e z manifest opfDir totalChapters [] st = st"
| "process_chapters e z manifest opfDir totalChapters (spineId # ids) st =
     process_chapters e z manifest opfDir totalChapters ids
       (process_chapter e z manifest opfDir totalChapters spineId st)"

record conversion_result =
  blob :: "draw list"
  textPreview :: string

definition initial_loop_state :: loop_state where
  "initial_loop_state =
     \<lparr>pdf = \<lparr>y_pos = 20, ops = [], fullTextPreview = []\<rparr>,
      processedChapters = 0, reported = []\<rparr>"

text \<open>
  Lines 101-401 of \<^verbatim>\<open>convertEpubToPdf\<close>, from the report of 10 percent on: the result
  and the effects in order.  The \<^verbatim>\<open>catch\<close> of line 403 logs and rethrows.
\<close>

definition convert_archive :: "env \<Rightarrow> string \<Rightarrow> (error + conversion_result) \<times> effect list" where
  "convert_archive e file =
     (case loadAsync e file of
        None \<Rightarrow> (Inl ZipLoadFailed, [OnProgress 10])
      | Some z \<Rightarrow>
     (case zip_file z ''META-INF/container.xml'' of
        None \<Rightarrow> (Inl MissingContainer, [OnProgress 10])
      | Some containerXml \<Rightarrow>
     (case match_full_path containerXml of
        None \<Rightarrow> (Inl OpfPathNotFound, [OnProgress 10])
      | Some opfPath \<Rightarrow>
     (case zip_file z opfPath of
        None \<Rightarrow> (Inl OpfFileMissing, [OnProgress 10, OnProgress 15])
      | Some opfContent \<Rightarrow>
          (let opfDoc = parseXml e opfContent;
               manifest = build_manifest opfDoc;
               spineIds = spine_ids opfDoc
           in if length spineIds = 0
              then (Inl NoChaptersFound, [OnProgress 10, OnProgress 15])
              else
                (let st = process_chapters e z manifest (opf_dir opfPath) (length spineIds)
                            spineIds initial_loop_state
                 in (Inr \<lparr>blob = ops (pdf st), textPreview = fullTextPreview (pdf st)\<rparr>,
                     [OnProgress 10, OnProgress 15, OnProgress 20, NewJsPDF]
                       @ reported st @ [OnProgress 98, OnProgress 100])))))))"

text \<open>
  \<^verbatim>\<open>convertEpubToPdf\<close>: the result (\<^verbatim>\<open>Inl\<close> for the rejected promise), the font cache
  afterwards, and the effects in order.
\<close>

definition convertEpubToPdf ::
  "env \<Rightarrow> font_state \<Rightarrow> string \<Rightarrow> (error + conversion_result) \<times> font_state \<times> effect list" where
  "convertEpubToPdf e fs file =
     (case getFontBase64 e fs of
        (Inl err, fs1, fx) \<Rightarrow> (Inl err, fs1, OnProgress 1 # fx)
      | (Inr fontBase64, fs1, fx) \<Rightarrow>
          (let (r, gx) = convert_archive e file in (r, fs1, OnProgress 1 # fx @ gx)))"

text \<open>The percentages a sequence of effects reports.\<close>

fun percents :: "effect list \<Rightarrow> int list" where
  "percents [] = []"
| "percents (OnProgress p # fx) = p # percents fx"
| "percents (FetchUrl u # fx) = percents fx"
| "percents (NewJsPDF # fx) = percents fx"

section \<open>The path resolver as the specification words it\<close>

text \<open>
  Section 4.5 of the specification, written independently of the code above: the stack
  is a list with its top at the head, a reference segment acts on it by \<open>spec_step\<close>, the
  fragment is what follows the first \<^verbatim>\<open>#\<close>, and the filename is the last segment of the
  chapter path.
\<close>

definition spec_step :: "string list \<Rightarrow> string \<Rightarrow> string list" where
  "spec_step stack seg =
     (if seg = ''.'' \<or> seg = [] then stack
      else if seg = ''..'' then (case stack of [] \<Rightarrow> [] | t # below \<Rightarrow> below)
      else seg # stack)"

definition spec_resolve :: "(string \<Rightarrow> string option) \<Rightarrow> string \<Rightarrow> string \<Rightarrow> string option" where
  "spec_resolve decode chapterPath reference =
     (let stripped = takeWhile (\<lambda>c. c \<noteq> CHR ''#'') reference;
          directory = tl (rev (split_on CHR ''/'' chapterPath));
          final = foldl spec_step directory (split_on CHR ''/'' stripped)
      in decode (join_with CHR ''/'' (rev final)))"

section \<open>A small book\<close>

text \<open>
  A concrete environment on which the theorems below are instantiated: an archive with a
  container descriptor, a package document with two manifest items and a spine of three
  entries (the second has no manifest item), two chapters and a picture.  The page is A4
  in millimetres; text is wrapped into chunks of forty characters.
\<close>

fun chunks :: "nat \<Rightarrow> nat \<Rightarrow> string \<Rightarrow> string list" where
  "chunks 0 n s = []"
| "chunks (Suc fuel) n s = (if s = [] then [] else take n s # chunks fuel n (drop n s))"

definition demo_container :: string where
  "demo_container = ''<rootfile full-path='' @ [quote] @ ''content.opf'' @ [quote] @ ''/>''"

definition demo_opf :: node where
  "demo_opf =
     Element ''package'' []
       [Element ''manifest'' []
          [Element ''item'' [(''id'', ''c1''), (''href'', ''ch1.xhtml'')] [],
           Element ''item'' [(''id'', ''c2''), (''href'', ''ch2.xhtml'')] []],
        Element ''spine'' []
          [Element ''itemref'' [(''idref'', ''c1'')] [],
           Element ''itemref'' [(''idref'', ''zz'')] [],
           Element ''itemref'' [(''idref'', ''c2'')] []]]"

definition demo_archive :: archive where
  "demo_archive =
     [(''META-INF/container.xml'', demo_container),
      (''content.opf'', ''opf''),
      (''ch1.xhtml'', ''One''),
      (''ch2.xhtml'', ''Two''),
      (''x.png'', ''PNGDATA'')]"

definition demo_html :: "string \<Rightarrow> html_doc" where
  "demo_html s =
     \<lparr>body = Some (Element ''BODY'' []
               [Element ''H1'' [] [TextNode s],
                Element ''P'' [] [TextNode ''a  b'', Element ''IMG'' [(''src'', ''x.png'')] []]]),
      documentElement = OtherNode\<rparr>"

text \<open>The properties of \<^verbatim>\<open>Object.prototype\<close>, shown as V8 shows them.\<close>

definition demo_prototype :: "string \<Rightarrow> string option" where
  "demo_prototype =
     map_of
       [(''constructor'', ''function Object() { [native code] }''),
        (''hasOwnProperty'', ''function hasOwnProperty() { [native code] }''),
        (''isPrototypeOf'', ''function isPrototypeOf() { [native code] }''),
        (''propertyIsEnumerable'', ''function propertyIsEnumerable() { [native code] }''),
        (''toLocaleString'', ''function toLocaleString() { [native code] }''),
        (''toString'', ''function toString() { [native code] }''),
        (''valueOf'', ''function valueOf() { [native code] }''),
        (''__defineGetter__'', ''function __defineGetter__() { [native code] }''),
        (''__defineSetter__'', ''function __defineSetter__() { [native code] }''),
        (''__lookupGetter__'', ''function __lookupGetter__() { [native code] }''),
        (''__lookupSetter__'', ''function __lookupSetter__() { [native code] }''),
        (''__proto__'', ''[object Object]'')]"

definition demo_env :: env where
  "demo_env =
     \<lparr>fetch = (\<lambda>url. Some ''ttf''),
      btoa = (\<lambda>bytes. bytes),
      loadAsync = (\<lambda>file. Some demo_archive),
      parseXml = (\<lambda>s. demo_opf),
      parseHtml = demo_html,
      splitTextToSize = (\<lambda>t w. chunks (length t) 40 t),
      getImageProperties = (\<lambda>d. Some (340, 200)),
      addImage = (\<lambda>d f. True),
      decodeURIComponent = Some,
      pageHeight = 297,
      pageWidth = 210,
      objectPrototype = demo_prototype\<rparr>"

definition cached_font :: font_state where
  "cached_font = \<lparr>cachedFontBase64 = Some ''ttf'', isUserProvided = True\<rparr>"

definition no_font :: font_state where
  "no_font = \<lparr>cachedFontBase64 = None, isUserProvided = False\<rparr>"

text \<open>The same environment for an archive without a container descriptor.\<close>

definition bare_env :: env where
  "bare_env = demo_env\<lparr>loadAsync := (\<lambda>file. Some [(''mimetype'', ''application/epub+zip'')])\<rparr>"


text \<open>A book of one chapter whose only paragraph has 15000 characters.\<close>

definition long_env :: env where
  "long_env =
     demo_env\<lparr>parseXml := (\<lambda>s. Element ''package'' []
                  [Element ''manifest'' []
                     [Element ''item'' [(''id'', ''c1''), (''href'', ''ch1.xhtml'')] []],
                   Element ''spine'' [] [Element ''itemref'' [(''idref'', ''c1'')] []]]),
              parseHtml := (\<lambda>s. \<lparr>body = Some (Element ''BODY'' []
                                     [Element ''P'' [] [TextNode (replicate 15000 CHR ''a'')]]),
                                 documentElement = OtherNode\<rparr>)\<rparr>"

text \<open>
  A book whose spine names \<^verbatim>\<open>constructor\<close>, an id without manifest item, in an archive
  that has an entry named as V8 shows the function \<^verbatim>\<open>Object\<close>.
\<close>

definition ghost_opf :: node where
  "ghost_opf =
     Element ''package'' []
       [Element ''manifest'' []
          [Element ''item'' [(''id'', ''c1''), (''href'', ''ch1.xhtml'')] [],
           Element ''item'' [(''id'', ''c2''), (''href'', ''ch2.xhtml'')] []],
        Element ''spine'' []
          [Element ''itemref'' [(''idref'', ''c1'')] [],
           Element ''itemref'' [(''idref'', ''constructor'')] [],
           Element ''itemref'' [(''idref'', ''c2'')] []]]"

definition ghost_archive :: archive where
  "ghost_archive =
     [(''META-INF/container.xml'', demo_container),
      (''content.opf'', ''opf''),
      (''ch1.xhtml'', ''One''),
      (''ch2.xhtml'', ''Two''),
      (''function Object() { [native code] }'', ''Ghost'')]"

definition ghost_env :: env where
  "ghost_env =
     demo_env\<lparr>loadAsync := (\<lambda>file. Some ghost_archive),
              parseXml := (\<lambda>s. ghost_opf),
              parseHtml := (\<lambda>s. \<lparr>body = Some (Element ''BODY'' [] [Element ''P'' [] [TextNode s]]),
                                 documentElement = OtherNode\<rparr>)\<rparr>"

text \<open>
  The page of \<^verbatim>\<open>new jsPDF()\<close>: A4 in millimetres, 595.28 and 841.89 points divided by
  72 / 25.4, as doubles (210.0015555555555 and 297.0000833333333).
\<close>

definition a4_env :: env where
  "a4_env =
     demo_env\<lparr>pageWidth := 3694386434950095 / 17592186044416,
              pageHeight := 5224880721207055 / 17592186044416\<rparr>"

section \<open>Invariants of the renderer\<close>

text \<open>A drawing call places its element with the cursor between the two margins.\<close>

fun placed_in_bounds :: "env \<Rightarrow> draw \<Rightarrow> bool" where
  "placed_in_bounds e AddPage = True"
| "placed_in_bounds e (DrawText line x y) = (margin \<le> y \<and> y \<le> pageHeight e - margin)"
| "placed_in_bounds e (DrawImage imgData format x y w h) =
     (margin \<le> y \<and> y \<le> pageHeight e - margin)"

text \<open>The cursor is never above the top margin, and everything drawn so far was in bounds.\<close>

definition cursor_inv :: "env \<Rightarrow> pdf_state \<Rightarrow> bool" where
  "cursor_inv e s = (margin \<le> y_pos s \<and> (\<forall>op\<in>set (ops s). placed_in_bounds e op))"

section \<open>The paragraphs of a book\<close>

text \<open>
  What the render loop does to the text buffer, apart from drawing: a text item is
  appended to the buffer, any other item and the end of the chapter flush it, and a
  flushed buffer is a paragraph when it and its trimmed form are not empty (lines 311-327
  and 375-386).  \<open>item_paragraphs\<close> lists the paragraphs of a list of items in order.
\<close>

definition flushed_paragraph :: "string \<Rightarrow> string list" where
  "flushed_paragraph textBuffer =
     (if textBuffer \<noteq> [] \<and> trim textBuffer \<noteq> [] then [trim textBuffer] else [])"

fun item_paragraphs :: "content_item list \<Rightarrow> string \<Rightarrow> string list" where
  "item_paragraphs [] textBuffer = flushed_paragraph textBuffer"
| "item_paragraphs (TextItem v # items) textBuffer = item_paragraphs items (textBuffer @ v)"
| "item_paragraphs (ImageItem v # items) textBuffer =
     flushed_paragraph textBuffer @ item_paragraphs items []"
| "item_paragraphs (NewlineItem # items) textBuffer =
     flushed_paragraph textBuffer @ item_paragraphs items []"

text \<open>The paragraphs of the chapter of a spine id: none when the chapter is not rendered.\<close>

definition href_paragraphs :: "env \<Rightarrow> archive \<Rightarrow> string \<Rightarrow> string \<Rightarrow> string list" where
  "href_paragraphs e z opfDir href =
     (case zip_file z (opfDir @ href) of
        None \<Rightarrow> []
      | Some content \<Rightarrow>
          item_paragraphs
            (traverse (case body (parseHtml e content) of
                         Some b \<Rightarrow> b
                       | None \<Rightarrow> documentElement (parseHtml e content))) [])"

definition chapter_paragraphs ::
  "env \<Rightarrow> archive \<Rightarrow> (string \<rightharpoonup> string) \<Rightarrow> string \<Rightarrow> string \<Rightarrow> string list" where
  "chapter_paragraphs e z manifest opfDir spineId =
     (case manifest_get e manifest spineId of
        JsUndefined \<Rightarrow> []
      | JsString href \<Rightarrow> (if href = [] then [] else href_paragraphs e z opfDir href)
      | JsObject shown \<Rightarrow> href_paragraphs e z opfDir shown)"

text \<open>The paragraphs of the book in a file, in spine order: none when the conversion fails.\<close>

definition book_paragraphs :: "env \<Rightarrow> string \<Rightarrow> string list" where
  "book_paragraphs e file =
     (case loadAsync e file of
        None \<Rightarrow> []
      | Some z \<Rightarrow>
     (case zip_file z ''META-INF/container.xml'' of
        None \<Rightarrow> []
      | Some containerXml \<Rightarrow>
     (case match_full_path containerXml of
        None \<Rightarrow> []
      | Some opfPath \<Rightarrow>
     (case zip_file z opfPath of
        None \<Rightarrow> []
      | Some opfContent \<Rightarrow>
          concat (map (chapter_paragraphs e z (build_manifest (parseXml e opfContent))
                         (opf_dir opfPath))
                      (spine_ids (parseXml e opfContent)))))))"

text \<open>
  Lines 324 and 384 on a paragraph: it is appended with a newline when the preview has
  fewer than 15000 characters.
\<close>

definition append_capped :: "string \<Rightarrow> string \<Rightarrow> string" where
  "append_capped preview paragraph =
     (if length preview < 15000 then preview @ paragraph @ [CHR 0x0A] else preview)"

section \<open>Properties of the rounding to doubles\<close>

lemma rhe_mono:
  assumes "x \<le> y"
  shows "round_half_even x \<le> round_half_even y"
proof (cases "\<lfloor>x\<rfloor> = \<lfloor>y\<rfloor>")
  case True
  then show ?thesis using assms by (auto simp: round_half_even_def Let_def)
next
  case False
  then have "\<lfloor>x\<rfloor> < \<lfloor>y\<rfloor>" using assms floor_mono [of x y] by linarith
  moreover have "round_half_even x \<le> \<lfloor>x\<rfloor> + 1" by (simp add: round_half_even_def Let_def)
  moreover have "\<lfloor>y\<rfloor> \<le> round_half_even y" by (simp add: round_half_even_def Let_def)
  ultimately show ?thesis by linarith
qed

lemma rhe_of_int: "round_half_even (of_int m) = m"
  by (simp add: round_half_even_def)

lemma rhe_err: "\<bar>of_int (round_half_even x) - x\<bar> \<le> 1 / 2"
  unfolding round_half_even_def Let_def by (auto; linarith)

lemma rhe_le_52: "x \<le> 4503599627370496 \<Longrightarrow> round_half_even x \<le> 4503599627370496"
  using rhe_mono [of x 4503599627370496] rhe_of_int [of 4503599627370496] by simp

lemma rhe_ge_52: "4503599627370496 \<le> x \<Longrightarrow> 4503599627370496 \<le> round_half_even x"
  using rhe_mono [of 4503599627370496 x] rhe_of_int [of 4503599627370496] by simp

lemma rhe_le_53: "x \<le> 9007199254740992 \<Longrightarrow> round_half_even x \<le> 9007199254740992"
  using rhe_mono [of x 9007199254740992] rhe_of_int [of 9007199254740992] by simp

lemma rhe_ge_53: "9007199254740992 \<le> x \<Longrightarrow> 9007199254740992 \<le> round_half_even x"
  using rhe_mono [of 9007199254740992 x] rhe_of_int [of 9007199254740992] by simp

lemma round_small_le: "x \<le> 9007199254740992 \<Longrightarrow> round_small k x \<le> 9007199254740992"
proof (induction k arbitrary: x)
  case 0
  then show ?case by (simp add: rhe_le_53)
next
  case (Suc k)
  show ?case
  proof (cases "4503599627370496 \<le> x")
    case True
    then show ?thesis using Suc.prems by (simp add: rhe_le_53)
  next
    case False
    then have "2 * x \<le> 9007199254740992" by simp
    then have "round_small k (2 * x) \<le> 9007199254740992" by (rule Suc.IH)
    then show ?thesis using False by simp
  qed
qed

lemma round_small_mono: "x \<le> y \<Longrightarrow> round_small k x \<le> round_small k y"
proof (induction k arbitrary: x y)
  case 0
  then show ?case by (simp add: rhe_mono)
next
  case (Suc k)
  show ?case
  proof (cases "4503599627370496 \<le> x")
    case True
    then show ?thesis using Suc.prems by (simp add: rhe_mono)
  next
    case False
    note small = this
    show ?thesis
    proof (cases "4503599627370496 \<le> y")
      case True
      have "2 * x \<le> 9007199254740992" using small by simp
      then have "round_small k (2 * x) \<le> 9007199254740992" by (rule round_small_le)
      then have "round_small k (2 * x) / 2 \<le> 4503599627370496" by simp
      also have "\<dots> \<le> of_int (round_half_even y)" using rhe_ge_52 [OF True] by simp
      finally show ?thesis using small True by simp
    next
      case False
      have "round_small k (2 * x) \<le> round_small k (2 * y)"
        using Suc.prems by (intro Suc.IH) simp
      then show ?thesis using small False by simp
    qed
  qed
qed

lemma round_small_int: "round_small k (of_int m) = of_int m"
proof (induction k arbitrary: m)
  case 0
  then show ?case by (simp add: rhe_of_int)
next
  case (Suc k)
  have "round_small k (2 * of_int m) = 2 * of_int m"
    using Suc.IH [of "2 * m"] by simp
  then show ?case by (simp add: rhe_of_int)
qed

lemma round_big_ge: "4503599627370496 \<le> x \<Longrightarrow> 4503599627370496 \<le> round_big k x"
proof (induction k arbitrary: x)
  case 0
  then show ?case by (simp add: rhe_ge_52)
next
  case (Suc k)
  show ?case
  proof (cases "x < 9007199254740992")
    case True
    then show ?thesis using Suc.prems by (simp add: rhe_ge_52)
  next
    case False
    then have "4503599627370496 \<le> x / 2" by simp
    then have "4503599627370496 \<le> round_big k (x / 2)" by (rule Suc.IH)
    then show ?thesis using False by simp
  qed
qed

lemma round_big_ge_53: "9007199254740992 \<le> x \<Longrightarrow> 9007199254740992 \<le> round_big k x"
proof (cases k)
  case 0
  assume "9007199254740992 \<le> x"
  then show ?thesis using 0 by (simp add: rhe_ge_53)
next
  case (Suc j)
  assume big: "9007199254740992 \<le> x"
  then have "4503599627370496 \<le> x / 2" by simp
  then have "4503599627370496 \<le> round_big j (x / 2)" by (rule round_big_ge)
  then show ?thesis using Suc big by simp
qed

lemma round_big_mono: "x \<le> y \<Longrightarrow> round_big k x \<le> round_big k y"
proof (induction k arbitrary: x y)
  case 0
  then show ?case by (simp add: rhe_mono)
next
  case (Suc k)
  show ?case
  proof (cases "y < 9007199254740992")
    case True
    then show ?thesis using Suc.prems by (simp add: rhe_mono)
  next
    case False
    note big = this
    show ?thesis
    proof (cases "x < 9007199254740992")
      case True
      have "of_int (round_half_even x) \<le> (9007199254740992::real)"
        using rhe_le_53 [of x] True by simp
      also have "\<dots> \<le> round_big (Suc k) y" using big by (intro round_big_ge_53) simp
      finally show ?thesis using True by simp
    next
      case False
      have "round_big k (x / 2) \<le> round_big k (y / 2)"
        using Suc.prems by (intro Suc.IH) simp
      then show ?thesis using big False by simp
    qed
  qed
qed

lemma double_of_nonneg_eq:
  "0 \<le> x \<Longrightarrow>
     double_of x = (if 9007199254740992 \<le> x then round_big 971 x else round_small 1074 x)"
  by (simp add: double_of_def round_magnitude_def)

lemma double_of_neg: "x < 0 \<Longrightarrow> double_of x = - double_of (- x)"
  by (simp add: double_of_def)

lemma double_of_mono_nonneg:
  assumes "0 \<le> x" and "x \<le> y"
  shows "double_of x \<le> double_of y"
proof -
  have y: "0 \<le> y" using assms by simp
  show ?thesis
  proof (cases "9007199254740992 \<le> x")
    case True
    then show ?thesis using assms y
      by (simp add: double_of_nonneg_eq round_big_mono)
  next
    case False
    note small = this
    show ?thesis
    proof (cases "9007199254740992 \<le> y")
      case True
      have "round_small 1074 x \<le> 9007199254740992" using small by (intro round_small_le) simp
      also have "\<dots> \<le> round_big 971 y" using True by (rule round_big_ge_53)
      finally show ?thesis using small True assms y by (simp add: double_of_nonneg_eq)
    next
      case False
      then show ?thesis using small assms y
        by (simp add: double_of_nonneg_eq round_small_mono)
    qed
  qed
qed

lemma double_of_zero: "double_of 0 = 0"
  using round_small_int [of 1074 0] by (simp add: double_of_nonneg_eq)

lemma double_of_nonneg: "0 \<le> x \<Longrightarrow> 0 \<le> double_of x"
  using double_of_mono_nonneg [of 0 x] by (simp add: double_of_zero)

lemma double_of_mono:
  assumes "x \<le> y"
  shows "double_of x \<le> double_of y"
proof (cases "0 \<le> x")
  case True
  then show ?thesis using assms by (rule double_of_mono_nonneg)
next
  case False
  then have neg: "x < 0" by simp
  show ?thesis
  proof (cases "0 \<le> y")
    case True
    have "0 \<le> double_of (- x)" using neg by (intro double_of_nonneg) simp
    moreover have "0 \<le> double_of y" using True by (rule double_of_nonneg)
    ultimately show ?thesis using neg by (simp add: double_of_neg)
  next
    case False
    then have "double_of (- y) \<le> double_of (- x)"
      using assms by (intro double_of_mono_nonneg) simp_all
    then show ?thesis using neg False by (simp add: double_of_neg)
  qed
qed

lemma double_of_int:
  assumes "\<bar>m\<bar> < 9007199254740992"
  shows "double_of (of_int m) = of_int m"
proof (cases "0 \<le> m")
  case True
  then have "m < 9007199254740992" using assms by simp
  then have "real_of_int m < 9007199254740992" by simp
  then show ?thesis using True round_small_int [of 1074 m] by (simp add: double_of_nonneg_eq)
next
  case False
  then have neg: "(of_int m :: real) < 0" by simp
  have "- m < 9007199254740992" using assms False by simp
  then have "real_of_int (- m) < 9007199254740992" by linarith
  then have "double_of (of_int (- m)) = of_int (- m)"
    using False round_small_int [of 1074 "- m"] by (simp add: double_of_nonneg_eq)
  then show ?thesis using neg by (simp add: double_of_neg)
qed

lemma double_of_nat: "n < 9007199254740992 \<Longrightarrow> double_of (real n) = real n"
  using double_of_int [of "int n"] by simp

lemma rhe_err_bound:
  assumes "4503599627370496 \<le> x"
  shows "\<bar>of_int (round_half_even x) - x\<bar> \<le> x / 9007199254740992"
proof -
  have "\<bar>of_int (round_half_even x) - x\<bar> \<le> 1 / 2" by (rule rhe_err)
  also have "\<dots> \<le> x / 9007199254740992" using assms by simp
  finally show ?thesis .
qed

lemma round_small_err:
  "4503599627370496 \<le> x * 2 ^ k \<Longrightarrow> \<bar>round_small k x - x\<bar> \<le> x / 9007199254740992"
proof (induction k arbitrary: x)
  case 0
  then show ?case using rhe_err_bound [of x] by simp
next
  case (Suc k)
  show ?case
  proof (cases "4503599627370496 \<le> x")
    case True
    then show ?thesis using rhe_err_bound [of x] by simp
  next
    case False
    have "4503599627370496 \<le> (2 * x) * 2 ^ k" using Suc.prems by (simp add: mult.assoc mult.left_commute)
    then have "\<bar>round_small k (2 * x) - 2 * x\<bar> \<le> (2 * x) / 9007199254740992" by (rule Suc.IH)
    moreover have "round_small k (2 * x) / 2 - x = (round_small k (2 * x) - 2 * x) / 2" by simp
    ultimately have "\<bar>round_small k (2 * x) / 2 - x\<bar> \<le> x / 9007199254740992"
      by (simp only: abs_divide)
    then show ?thesis using False by simp
  qed
qed

lemma round_big_err:
  "4503599627370496 \<le> x \<Longrightarrow> \<bar>round_big k x - x\<bar> \<le> x / 9007199254740992"
proof (induction k arbitrary: x)
  case 0
  then show ?case using rhe_err_bound [of x] by simp
next
  case (Suc k)
  show ?case
  proof (cases "x < 9007199254740992")
    case True
    then show ?thesis using Suc.prems rhe_err_bound [of x] by simp
  next
    case False
    then have "4503599627370496 \<le> x / 2" by simp
    then have "\<bar>round_big k (x / 2) - x / 2\<bar> \<le> (x / 2) / 9007199254740992" by (rule Suc.IH)
    moreover have "2 * round_big k (x / 2) - x = 2 * (round_big k (x / 2) - x / 2)" by simp
    ultimately have "\<bar>2 * round_big k (x / 2) - x\<bar> \<le> x / 9007199254740992"
      by (simp only: abs_mult)
    then show ?thesis using False by simp
  qed
qed

text \<open>In the normal range a double is within a relative error of \<open>2^-53\<close>.\<close>

lemma double_of_err:
  assumes "1 / 2 ^ 1022 \<le> x"
  shows "\<bar>double_of x - x\<bar> \<le> x / 9007199254740992"
proof -
  have pos: "0 < x" using assms by (rule less_le_trans [rotated]) simp
  show ?thesis
  proof (cases "9007199254740992 \<le> x")
    case True
    then have "4503599627370496 \<le> x" by simp
    then have "\<bar>round_big 971 x - x\<bar> \<le> x / 9007199254740992" by (rule round_big_err)
    then show ?thesis using True pos by (simp add: double_of_nonneg_eq)
  next
    case False
    have "(2::real) ^ 1074 = 2 ^ 1022 * 2 ^ 52" by (simp add: power_add [symmetric])
    then have "x * 2 ^ 1074 = (x * 2 ^ 1022) * 2 ^ 52" by simp
    moreover have "1 \<le> x * 2 ^ 1022" using assms by (simp add: field_simps)
    ultimately have "1 * 2 ^ 52 \<le> x * 2 ^ 1074"
      by (simp only: mult_right_mono zero_le_power zero_le_numeral)
    then have "4503599627370496 \<le> x * 2 ^ 1074" by simp
    then have "\<bar>round_small 1074 x - x\<bar> \<le> x / 9007199254740992" by (rule round_small_err)
    then show ?thesis using False pos by (simp add: double_of_nonneg_eq)
  qed
qed

text \<open>Evaluation at a numeral: one doubling or halving at a time.\<close>

lemma round_small_numeral:
  "round_small (numeral n) x =
     (if 4503599627370496 \<le> x then of_int (round_half_even x)
      else round_small (pred_numeral n) (2 * x) / 2)"
  by (simp add: numeral_eq_Suc)

lemma round_big_numeral:
  "round_big (numeral n) x =
     (if x < 9007199254740992 then of_int (round_half_even x)
      else 2 * round_big (pred_numeral n) (x / 2))"
  by (simp add: numeral_eq_Suc)

lemmas double_eval =
  double_of_def round_magnitude_def round_small_numeral round_big_numeral round_half_even_def

section \<open>Properties of the path resolver\<close>

lemma split_on_not_Nil: "split_on c s \<noteq> []"
  by (induction s) (auto split: list.splits)

lemma hd_split_on: "hd (split_on c s) = takeWhile (\<lambda>x. x \<noteq> c) s"
  by (induction s) (auto split: list.splits simp: split_on_not_Nil)

lemma walk_parts_spec: "walk_parts st ps = rev (foldl spec_step (rev st) ps)"
proof (induction ps arbitrary: st)
  case Nil
  show ?case by simp
next
  case (Cons p ps)
  show ?case
  proof (cases "p = ''.'' \<or> p = []")
    case True
    then show ?thesis using Cons.IH [of st] by (auto simp: spec_step_def)
  next
    case False
    note nodot = this
    show ?thesis
    proof (cases "p = ''..''")
      case True
      have "rev (butlast st) = tl (rev st)" by (cases st rule: rev_cases) simp_all
      then show ?thesis using True Cons.IH [of "butlast st"] Cons.IH [of st]
        by (cases st rule: rev_cases) (simp_all add: spec_step_def)
    next
      case False
      then show ?thesis using nodot Cons.IH [of "st @ [p]"] by (simp add: spec_step_def)
    qed
  qed
qed

text \<open>
  Claim C4.  For a reference that is neither empty nor starts with \<^verbatim>\<open>http\<close>, the resolver
  computes what section 4.5 describes: the fragment after \<^verbatim>\<open>#\<close> is stripped, the filename
  of the chapter path is dropped, the segments \<^verbatim>\<open>.\<close> and the empty segment do nothing,
  \<^verbatim>\<open>..\<close> pops one segment and does nothing on an empty stack, any other segment is
  pushed, and the joined stack is percent-decoded.  With a decoder that leaves strings
  without \<^verbatim>\<open>%\<close> alone, \<^verbatim>\<open>../Images/cover.jpg\<close> resolved against
  \<^verbatim>\<open>OEBPS/Text/ch1.xhtml\<close> is \<^verbatim>\<open>OEBPS/Images/cover.jpg\<close>, and
  \<^verbatim>\<open>img.png#xywh=0,0,10,10\<close> resolves as \<^verbatim>\<open>img.png\<close> does.
\<close>

theorem resolveImagePath_refines_spec:
  "(relativeSrc \<noteq> [] \<and> \<not> startsWith relativeSrc ''http'' \<longrightarrow>
      resolveImagePath decode currentFilePath relativeSrc =
        (case spec_resolve decode currentFilePath relativeSrc of
           None \<Rightarrow> Inl URIError
         | Some p \<Rightarrow> Inr (Some p)))
   \<and> walk_parts [] (''..'' # parts) = walk_parts [] parts
   \<and> ((\<forall>s. CHR ''%'' \<notin> set s \<longrightarrow> decode s = Some s) \<longrightarrow>
        resolveImagePath decode ''OEBPS/Text/ch1.xhtml'' ''../Images/cover.jpg''
          = Inr (Some ''OEBPS/Images/cover.jpg'')
        \<and> resolveImagePath decode ''OEBPS/Text/ch1.xhtml'' ''img.png#xywh=0,0,10,10''
          = Inr (Some ''OEBPS/Text/img.png''))
   \<and> resolveImagePath decode currentFilePath ''img.png#xywh=0,0,10,10''
        = resolveImagePath decode currentFilePath ''img.png''"
proof -
  have dir: "rev (butlast (split_on CHR ''/'' currentFilePath))
               = tl (rev (split_on CHR ''/'' currentFilePath))"
    by (cases "split_on CHR ''/'' currentFilePath" rule: rev_cases) simp_all
  have a: "relativeSrc \<noteq> [] \<and> \<not> startsWith relativeSrc ''http'' \<longrightarrow>
      resolveImagePath decode currentFilePath relativeSrc =
        (case spec_resolve decode currentFilePath relativeSrc of
           None \<Rightarrow> Inl URIError
         | Some p \<Rightarrow> Inr (Some p))"
    by (simp add: resolveImagePath_def spec_resolve_def hd_split_on walk_parts_spec dir)
  have b: "walk_parts [] (''..'' # parts) = walk_parts [] parts" by simp
  have c: "(\<forall>s. CHR ''%'' \<notin> set s \<longrightarrow> decode s = Some s) \<longrightarrow>
        resolveImagePath decode ''OEBPS/Text/ch1.xhtml'' ''../Images/cover.jpg''
          = Inr (Some ''OEBPS/Images/cover.jpg'')
        \<and> resolveImagePath decode ''OEBPS/Text/ch1.xhtml'' ''img.png#xywh=0,0,10,10''
          = Inr (Some ''OEBPS/Text/img.png'')"
    by (simp add: resolveImagePath_def startsWith_def)
  have d: "resolveImagePath decode currentFilePath ''img.png#xywh=0,0,10,10''
        = resolveImagePath decode currentFilePath ''img.png''"
    by (simp add: resolveImagePath_def startsWith_def)
  from a b c d show ?thesis by blast
qed

theorem resolveImagePath_refines_spec_witness:
  "(''../Images/cover.jpg'' \<noteq> [] \<and> \<not> startsWith ''../Images/cover.jpg'' ''http'')
   \<and> spec_resolve Some ''OEBPS/Text/ch1.xhtml'' ''../Images/cover.jpg'' = Some ''OEBPS/Images/cover.jpg''
   \<and> resolveImagePath Some ''OEBPS/Text/ch1.xhtml'' ''../Images/cover.jpg''
          = Inr (Some ''OEBPS/Images/cover.jpg'')
   \<and> resolveImagePath Some ''OEBPS/Text/ch1.xhtml'' ''img.png#xywh=0,0,10,10''
          = Inr (Some ''OEBPS/Text/img.png'')"
  using resolveImagePath_refines_spec [of "''../Images/cover.jpg''" Some "''OEBPS/Text/ch1.xhtml''" "[]"]
  by (simp add: startsWith_def spec_resolve_def spec_step_def)

text \<open>
  Claim C10.  A reference that starts with the four characters \<^verbatim>\<open>http\<close>, a relative path
  such as \<^verbatim>\<open>httpdocs/pic.png\<close> included, resolves to nothing, and the renderer leaves the
  document, the cursor and the preview as the flush of the text buffer left them.
\<close>

theorem http_reference_skipped:
  "resolveImagePath decode currentFilePath (''http'' @ rest) = Inr None
   \<and> resolveImagePath decode currentFilePath ''httpdocs/pic.png'' = Inr None
   \<and> render_image e z fullPath (''http'' @ rest) s = s
   \<and> render_item e z fullPath (ImageItem (''http'' @ rest)) (textBuffer, s)
        = ([], flush_text e textBuffer s)"
  by (simp add: resolveImagePath_def startsWith_def render_image_def)

section \<open>Properties of the linearizer\<close>

text \<open>
  Claim C9.  A heading \<^verbatim>\<open>h1\<close> to \<^verbatim>\<open>h6\<close> emits two newlines, then the events of its
  children, then one newline; each of the other block-level elements emits the events of
  its children and then one newline; a \<^verbatim>\<open>br\<close> element emits one newline.
\<close>

theorem traverse_newlines:
  "(toLowerCase tagName \<in> set [''h1'', ''h2'', ''h3'', ''h4'', ''h5'', ''h6''] \<longrightarrow>
      traverse (Element tagName attrs childNodes)
        = [NewlineItem, NewlineItem] @ concat (map traverse childNodes) @ [NewlineItem])
   \<and> (toLowerCase tagName \<in> set [''p'', ''div'', ''li'', ''blockquote'', ''section'', ''article''] \<longrightarrow>
      traverse (Element tagName attrs childNodes)
        = concat (map traverse childNodes) @ [NewlineItem])
   \<and> (toLowerCase tagName = ''br'' \<longrightarrow>
      traverse (Element tagName attrs childNodes)
        = concat (map traverse childNodes) @ [NewlineItem])"
  by (auto simp: Let_def is_heading_def block_tags_def skipped_tags_def)

theorem traverse_newlines_witness:
  "toLowerCase ''H2'' \<in> set [''h1'', ''h2'', ''h3'', ''h4'', ''h5'', ''h6'']
   \<and> toLowerCase ''DIV'' \<in> set [''p'', ''div'', ''li'', ''blockquote'', ''section'', ''article'']
   \<and> toLowerCase ''BR'' = ''br''
   \<and> traverse (Element ''H2'' [] [TextNode ''Title'']) = [NewlineItem, NewlineItem, TextItem ''Title'', NewlineItem]
   \<and> traverse (Element ''DIV'' [] [TextNode ''x'', Element ''BR'' [] []]) = [TextItem ''x'', NewlineItem, NewlineItem]
   \<and> traverse (Element ''BR'' [] []) = [NewlineItem]"
  using traverse_newlines [of "''H2''" "[]" "[TextNode ''Title'']"]
    traverse_newlines [of "''DIV''" "[]" "[TextNode ''x'', Element ''BR'' [] []]"]
    traverse_newlines [of "''BR''" "[]" "[]"]
  by (simp add: toLowerCase_def lower_char_def collapse_ws_def trim_def is_space_def)

section \<open>Properties of the conversion\<close>

lemma percents_append: "percents (xs @ ys) = percents xs @ percents ys"
  by (induction xs rule: percents.induct) simp_all

lemma download_font_effects:
  "percents (snd (download_font e urls)) = [] \<and> NewJsPDF \<notin> set (snd (download_font e urls))"
  by (induction urls) (auto split: option.splits prod.splits)

lemma getFontBase64_effects:
  "percents (snd (snd (getFontBase64 e fs))) = []
   \<and> NewJsPDF \<notin> set (snd (snd (getFontBase64 e fs)))"
  using download_font_effects [of e FONT_URLS]
  by (auto simp: getFontBase64_def split: prod.splits option.splits)

lemma demo_container_path: "match_full_path demo_container = Some ''content.opf''"
  by (simp add: demo_container_def startsWith_def full_path_literal_def quote_def)



text \<open>
  Claim C1, as the source has it.  The font is requested first (step 0 of the source):
  when a font is obtained and the archive opens but has no \<^verbatim>\<open>META-INF/container.xml\<close>, the
  conversion fails with the error of line 107, of kind \<open>MalformedArchive\<close>, after the
  requests for the font and the report of 10 percent, and before a PDF document is
  created.  No font source is contacted when a font is cached.
\<close>

theorem missing_container_fails_after_font:
  assumes "getFontBase64 e fs = (Inr font, fs1, fx)"
    and "loadAsync e file = Some z"
    and "zip_file z ''META-INF/container.xml'' = None"
  shows "convertEpubToPdf e fs file = (Inl MissingContainer, fs1, OnProgress 1 # fx @ [OnProgress 10])
    \<and> kind_of MissingContainer = MalformedArchive
    \<and> NewJsPDF \<notin> set fx
    \<and> (truthy (cachedFontBase64 fs) \<longrightarrow> fx = [])"
proof -
  have "convert_archive e file = (Inl MissingContainer, [OnProgress 10])"
    using assms(2,3) by (simp add: convert_archive_def)
  then have main: "convertEpubToPdf e fs file
      = (Inl MissingContainer, fs1, OnProgress 1 # fx @ [OnProgress 10])"
    using assms(1) by (simp add: convertEpubToPdf_def)
  have nopdf: "NewJsPDF \<notin> set fx" using getFontBase64_effects [of e fs] assms(1) by simp
  have cached: "truthy (cachedFontBase64 fs) \<longrightarrow> fx = []"
    using assms(1) by (auto simp: getFontBase64_def)
  from main nopdf cached show ?thesis by simp
qed

theorem missing_container_fails_after_font_witness:
  "getFontBase64 bare_env cached_font = (Inr ''ttf'', cached_font, [])
   \<and> loadAsync bare_env [] = Some [(''mimetype'', ''application/epub+zip'')]
   \<and> zip_file [(''mimetype'', ''application/epub+zip'')] ''META-INF/container.xml'' = None
   \<and> convertEpubToPdf bare_env cached_font []
        = (Inl MissingContainer, cached_font, [OnProgress 1, OnProgress 10])"
proof -
  have a: "getFontBase64 bare_env cached_font = (Inr ''ttf'', cached_font, [])"
    by (simp add: getFontBase64_def cached_font_def truthy_def)
  have b: "loadAsync bare_env [] = Some [(''mimetype'', ''application/epub+zip'')]"
    by (simp add: bare_env_def demo_env_def)
  have c: "zip_file [(''mimetype'', ''application/epub+zip'')] ''META-INF/container.xml'' = None"
    by (simp add: zip_file_def)
  from missing_container_fails_after_font [OF a b c] a b c show ?thesis by simp
qed

text \<open>
  The claim as stated, that the failure comes before any font fetch, does not hold: with
  no font cached, the conversion of an archive without container descriptor has fetched
  the first font URL and cached the font by the time it fails.
\<close>

theorem missing_container_fetches_font_first:
  "convertEpubToPdf bare_env no_font []
     = (Inl MissingContainer,
        \<lparr>cachedFontBase64 = Some ''ttf'', isUserProvided = False\<rparr>,
        [OnProgress 1,
         FetchUrl ''https://cdn.jsdelivr.net/gh/lxgw/LxgwWenKai-Lite@v1.3.2/LXGWWenKaiLite-Regular.ttf'',
         OnProgress 10])"
  by (simp add: convertEpubToPdf_def getFontBase64_def no_font_def truthy_def FONT_URLS_def
      bare_env_def demo_env_def convert_archive_def zip_file_def)

section \<open>Properties of the image scaling\<close>

lemma scaled_side:
  assumes "0 < n" and "n < 9007199254740992" and "0 < s" and "s \<le> 1"
    and "1 / 2 ^ 1022 \<le> real n * s"
  shows "double_of (real n * s) \<le> real n
    \<and> \<bar>double_of (real n * s) - real n * s\<bar> \<le> real n * s / 9007199254740992
    \<and> (s = 1 \<longrightarrow> double_of (real n * s) = real n)"
proof -
  have "real n * s \<le> real n * 1" using assms(3,4) by (intro mult_left_mono) simp_all
  then have "double_of (real n * s) \<le> double_of (real n)" by (intro double_of_mono) simp
  then have a: "double_of (real n * s) \<le> real n" using assms(2) by (simp add: double_of_nat)
  have b: "\<bar>double_of (real n * s) - real n * s\<bar> \<le> real n * s / 9007199254740992"
    using assms(5) by (rule double_of_err)
  have c: "s = 1 \<longrightarrow> double_of (real n * s) = real n"
    using assms(2) by (simp add: double_of_nat)
  from a b c show ?thesis by blast
qed

lemma scaleFactor_bounds:
  assumes "0 < imgW" and "imgW < 9007199254740992" and "1 \<le> maxLineWidth e"
  shows "scaleFactor e imgW = min (double_of (maxLineWidth e / real imgW)) 1
    \<and> 1 / 2 ^ 54 \<le> scaleFactor e imgW
    \<and> scaleFactor e imgW \<le> 1
    \<and> scaleFactor e imgW
          \<le> maxLineWidth e / real imgW + (maxLineWidth e / real imgW) / 9007199254740992"
proof -
  define q where "q = maxLineWidth e / real imgW"
  define u where "u = (1::real) / 9007199254740992"
  have w: "1 \<le> real imgW" "real imgW < 9007199254740992" using assms(1,2) by simp_all
  have upos: "0 < u" "u \<le> 1 / 2" by (simp_all add: u_def)
  have "u * real imgW \<le> 1" using w(2) by (simp add: u_def)
  also have "\<dots> \<le> maxLineWidth e" by (rule assms(3))
  finally have uq: "u \<le> q" using w(1) by (simp add: q_def field_simps)
  have "(1::real) / 2 ^ 1022 \<le> 1 / 2 ^ 53" by (intro divide_left_mono power_increasing) simp_all
  also have "\<dots> = u" by (simp add: u_def)
  finally have "1 / 2 ^ 1022 \<le> q" using uq by simp
  then have "\<bar>double_of q - q\<bar> \<le> q / 9007199254740992" by (rule double_of_err)
  then have err: "\<bar>double_of q - q\<bar> \<le> q * u" by (simp add: u_def)
  have sf: "scaleFactor e imgW = min (double_of q) 1"
    using assms(1) by (simp add: scaleFactor_def q_def)
  have "q * u \<le> q * (1 / 2)" using upos uq by (intro mult_left_mono) simp_all
  then have "q / 2 \<le> double_of q" using err by (simp add: abs_le_iff)
  then have "u / 2 \<le> double_of q" using uq by simp
  moreover have "u / 2 \<le> 1" using upos by simp
  ultimately have "u / 2 \<le> min (double_of q) 1" by simp
  moreover have "u / 2 = 1 / 2 ^ 54" by (simp add: u_def)
  ultimately have lo: "1 / 2 ^ 54 \<le> scaleFactor e imgW" by (simp add: sf)
  have hi: "scaleFactor e imgW \<le> 1" by (simp add: sf)
  have "min (double_of q) 1 \<le> double_of q" by simp
  also have "\<dots> \<le> q + q * u" using err by (simp add: abs_le_iff)
  finally have up: "scaleFactor e imgW \<le> q + q / 9007199254740992" by (simp add: sf u_def)
  from sf lo hi up show ?thesis by (simp add: q_def)
qed


text \<open>
  Claim C8, as the source has it.  The quotient and the products are doubles.  For an
  image of positive width and height below \<open>2^53\<close> on a page whose content width is at
  least 1, the scale factor is the minimum of 1 and the double nearest to content width
  over intrinsic width; it is positive and at most 1; the scaled width and height are the
  doubles nearest to the products and are at most the intrinsic width and height, and
  equal to them when the factor is 1.  The scaled width is at most the content width
  times \<open>(1 + 2^-53)^2\<close>, and the quotient of scaled width and height is that of the
  intrinsic ones up to the factor \<open>(1 + 2^-53) / (1 - 2^-53)\<close>.  These are the width and
  height the image is placed with.
\<close>

theorem scaled_image_bounds:
  assumes "0 < imgW" and "imgW < 2 ^ 53" and "0 < imgH" and "imgH < 2 ^ 53"
    and "1 \<le> maxLineWidth e"
  shows "scaleFactor e imgW = min (double_of (maxLineWidth e / real imgW)) 1
    \<and> 0 < scaleFactor e imgW \<and> scaleFactor e imgW \<le> 1
    \<and> finalW e imgW \<le> real imgW \<and> finalH e imgW imgH \<le> real imgH
    \<and> (scaleFactor e imgW = 1 \<longrightarrow>
          finalW e imgW = real imgW \<and> finalH e imgW imgH = real imgH)
    \<and> finalW e imgW \<le> maxLineWidth e * (1 + 1 / 2 ^ 53) ^ 2
    \<and> finalW e imgW * real imgH * (1 - 1 / 2 ^ 53)
          \<le> finalH e imgW imgH * real imgW * (1 + 1 / 2 ^ 53)
    \<and> finalH e imgW imgH * real imgW * (1 - 1 / 2 ^ 53)
          \<le> finalW e imgW * real imgH * (1 + 1 / 2 ^ 53)
    \<and> (addImage e imgData format \<longrightarrow>
          (\<exists>y0. last (ops (place_image e imgData format imgW imgH s))
                  = DrawImage imgData format margin y0 (finalW e imgW) (finalH e imgW imgH)))"
proof -
  define w where "w = real imgW"
  define h where "h = real imgH"
  define c where "c = maxLineWidth e"
  define f where "f = scaleFactor e imgW"
  define u where "u = (1::real) / 2 ^ 53"
  define fw where "fw = finalW e imgW"
  define fh where "fh = finalH e imgW imgH"
  have n: "imgW < 9007199254740992" "imgH < 9007199254740992" using assms(2,4) by simp_all
  have w: "1 \<le> w" and h: "1 \<le> h" using assms(1,3) by (simp_all add: w_def h_def)
  have u: "0 < u" "u \<le> 1 / 2" by (simp_all add: u_def)
  have sb: "f = min (double_of (c / w)) 1 \<and> 1 / 2 ^ 54 \<le> f \<and> f \<le> 1
      \<and> f \<le> c / w + (c / w) / 9007199254740992"
    unfolding f_def c_def w_def by (rule scaleFactor_bounds [OF assms(1) n(1) assms(5)])
  then have sf: "f = min (double_of (c / w)) 1" and flo: "1 / 2 ^ 54 \<le> f" and fhi: "f \<le> 1"
    by blast+
  from sb have "f \<le> c / w + (c / w) / 9007199254740992" by blast
  then have fup: "f \<le> c / w + (c / w) * u" by (simp add: u_def)
  have fpos: "0 < f" using flo by (rule less_le_trans [rotated]) simp
  have small: "(1::real) / 2 ^ 1022 \<le> 1 / 2 ^ 54"
    by (intro divide_left_mono power_increasing) simp_all
  have "f = 1 * f" by simp
  also have "\<dots> \<le> w * f" using w fpos by (intro mult_right_mono) simp_all
  finally have "1 / 2 ^ 1022 \<le> w * f" by (rule order_trans [OF small order_trans [OF flo]])
  then have wnorm: "1 / 2 ^ 1022 \<le> real imgW * f" by (simp only: w_def)
  have "f = 1 * f" by simp
  also have "\<dots> \<le> h * f" using h fpos by (intro mult_right_mono) simp_all
  finally have "1 / 2 ^ 1022 \<le> h * f" by (rule order_trans [OF small order_trans [OF flo]])
  then have hnorm: "1 / 2 ^ 1022 \<le> real imgH * f" by (simp only: h_def)
  have "fw \<le> w \<and> \<bar>fw - w * f\<bar> \<le> w * f / 9007199254740992 \<and> (f = 1 \<longrightarrow> fw = w)"
    unfolding fw_def finalW_def w_def f_def [symmetric]
    by (rule scaled_side [OF assms(1) n(1) fpos fhi wnorm])
  then have sw: "fw \<le> w" "\<bar>fw - w * f\<bar> \<le> (w * f) * u" "f = 1 \<longrightarrow> fw = w"
    by (simp_all add: u_def)
  have "fh \<le> h \<and> \<bar>fh - h * f\<bar> \<le> h * f / 9007199254740992 \<and> (f = 1 \<longrightarrow> fh = h)"
    unfolding fh_def finalH_def h_def f_def [symmetric]
    by (rule scaled_side [OF assms(3) n(2) fpos fhi hnorm])
  then have sh: "fh \<le> h" "\<bar>fh - h * f\<bar> \<le> (h * f) * u" "f = 1 \<longrightarrow> fh = h"
    by (simp_all add: u_def)
  have fw_hi: "fw \<le> (w * f) * (1 + u)" and fw_lo: "(w * f) * (1 - u) \<le> fw"
    using sw(2) by (simp_all add: abs_le_iff algebra_simps)
  have fh_hi: "fh \<le> (h * f) * (1 + u)" and fh_lo: "(h * f) * (1 - u) \<le> fh"
    using sh(2) by (simp_all add: abs_le_iff algebra_simps)
  have "w * f \<le> w * (c / w + (c / w) * u)" using fup w by (intro mult_left_mono) simp_all
  also have "\<dots> = c * (1 + u)" using w by (simp add: algebra_simps)
  finally have "(w * f) * (1 + u) \<le> (c * (1 + u)) * (1 + u)"
    using u by (intro mult_right_mono) simp_all
  then have wide: "fw \<le> c * (1 + u) ^ 2" using fw_hi by (simp add: power2_eq_square)
  have "fw * (h * (1 - u)) \<le> ((w * f) * (1 + u)) * (h * (1 - u))"
    using fw_hi h u by (intro mult_right_mono) simp_all
  also have "\<dots> = ((h * f) * (1 - u)) * (w * (1 + u))" by (simp add: algebra_simps)
  also have "\<dots> \<le> fh * (w * (1 + u))" using fh_lo w u by (intro mult_right_mono) simp_all
  finally have r1: "fw * h * (1 - u) \<le> fh * w * (1 + u)" by (simp add: mult.assoc)
  have "fh * (w * (1 - u)) \<le> ((h * f) * (1 + u)) * (w * (1 - u))"
    using fh_hi w u by (intro mult_right_mono) simp_all
  also have "\<dots> = ((w * f) * (1 - u)) * (h * (1 + u))" by (simp add: algebra_simps)
  also have "\<dots> \<le> fw * (h * (1 + u))" using fw_lo h u by (intro mult_right_mono) simp_all
  finally have r2: "fh * w * (1 - u) \<le> fw * h * (1 + u)" by (simp add: mult.assoc)
  have placed: "addImage e imgData format \<longrightarrow>
          (\<exists>y0. last (ops (place_image e imgData format imgW imgH s))
                  = DrawImage imgData format margin y0 fw fh)"
    by (simp add: place_image_def Let_def fw_def fh_def)
  from sf fpos fhi sw(1,3) sh(1,3) wide r1 r2 placed show ?thesis
    unfolding w_def h_def c_def f_def u_def fw_def fh_def by blast
qed

lemma a4_scaling:
  "maxLineWidth a4_env = 2990698993173455 / 17592186044416
   \<and> scaleFactor a4_env 300 = 5104126281682697 / 9007199254740992
   \<and> finalW a4_env 300 = 5981397986346911 / 35184372088832
   \<and> finalH a4_env 300 200 = 3987598657564607 / 35184372088832"
  by (simp add: finalW_def finalH_def scaleFactor_def maxLineWidth_def a4_env_def demo_env_def
      margin_def double_eval)

theorem scaled_image_bounds_witness:
  "(0::nat) < 300 \<and> (300::nat) < 2 ^ 53 \<and> (0::nat) < 200 \<and> (200::nat) < 2 ^ 53
   \<and> 1 \<le> maxLineWidth a4_env
   \<and> scaleFactor a4_env 300 = 5104126281682697 / 9007199254740992
   \<and> scaleFactor a4_env 300 \<le> 1
   \<and> finalW a4_env 300 \<le> real 300 \<and> finalH a4_env 300 200 \<le> real 200
   \<and> finalW a4_env 300 \<le> maxLineWidth a4_env * (1 + 1 / 2 ^ 53) ^ 2"
proof -
  have h: "(0::nat) < 300" "(300::nat) < 2 ^ 53" "(0::nat) < 200" "(200::nat) < 2 ^ 53"
    by simp_all
  have c: "1 \<le> maxLineWidth a4_env" by (simp add: a4_scaling)
  from scaled_image_bounds [OF h c, of "[]" "[]" "\<lparr>y_pos = 20, ops = [], fullTextPreview = []\<rparr>"]
  show ?thesis using h c by (simp add: a4_scaling)
qed

text \<open>
  The claim as stated, that the scaled width never exceeds the content width and that
  the ratio is the intrinsic one, does not hold: on the A4 page of jsPDF an image of 300
  by 200 is scaled to a width one unit in the last place above the content width, and
  to a height that does not keep the ratio.
\<close>

theorem scaled_width_exceeds_content_width:
  "\<not> finalW a4_env 300 \<le> maxLineWidth a4_env
   \<and> finalW a4_env 300 / finalH a4_env 300 200 \<noteq> real 300 / real 200
   \<and> maxLineWidth a4_env = 2990698993173455 / 17592186044416
   \<and> finalW a4_env 300 = 5981397986346911 / 35184372088832
   \<and> finalH a4_env 300 200 = 3987598657564607 / 35184372088832"
  by (simp add: a4_scaling)

section \<open>The conversion of the small book\<close>

lemma demo_scaling:
  "maxLineWidth demo_env = 170
   \<and> scaleFactor demo_env 340 = 1 / 2
   \<and> finalW demo_env 340 = 170
   \<and> finalH demo_env 340 200 = 100"
  by (simp add: finalW_def finalH_def scaleFactor_def maxLineWidth_def demo_env_def
      margin_def double_eval)

lemma demo_fields:
  "loadAsync demo_env file = Some demo_archive"
  "parseXml demo_env s = demo_opf"
  "parseHtml demo_env s = demo_html s"
  "splitTextToSize demo_env t w = chunks (length t) 40 t"
  "getImageProperties demo_env d = Some (340, 200)"
  "addImage demo_env d f"
  "decodeURIComponent demo_env = Some"
  "pageHeight demo_env = 297"
  "objectPrototype demo_env = demo_prototype"
  by (simp_all add: demo_env_def)

lemma demo_entries:
  "zip_file demo_archive ''META-INF/container.xml'' = Some demo_container"
  "zip_file demo_archive ''content.opf'' = Some ''opf''"
  "zip_file demo_archive ''ch1.xhtml'' = Some ''One''"
  "zip_file demo_archive ''ch2.xhtml'' = Some ''Two''"
  "zip_file demo_archive ''x.png'' = Some ''PNGDATA''"
  by (simp_all add: zip_file_def demo_archive_def)

lemma demo_manifest:
  "build_manifest demo_opf = [''c1'' \<mapsto> ''ch1.xhtml'', ''c2'' \<mapsto> ''ch2.xhtml'']"
  by (simp add: build_manifest_def demo_opf_def tagged_or_fallback_def getElementsByTagName_def
      doc_elements_def add_item_def getAttribute_def truthy_def)

lemma demo_spine: "spine_ids demo_opf = [''c1'', ''zz'', ''c2'']"
  by (simp add: spine_ids_def demo_opf_def tagged_or_fallback_def getElementsByTagName_def
      doc_elements_def idref_of_def getAttribute_def truthy_def)

lemma demo_lookups:
  "manifest_get demo_env (build_manifest demo_opf) ''c1'' = JsString ''ch1.xhtml''"
  "manifest_get demo_env (build_manifest demo_opf) ''zz'' = JsUndefined"
  "manifest_get demo_env (build_manifest demo_opf) ''c2'' = JsString ''ch2.xhtml''"
  by (simp_all add: manifest_get_def demo_manifest demo_fields demo_prototype_def)

lemma demo_items:
  "traverse (Element ''BODY'' []
               [Element ''H1'' [] [TextNode ''One''],
                Element ''P'' [] [TextNode ''a  b'', Element ''IMG'' [(''src'', ''x.png'')] []]])
     = [NewlineItem, NewlineItem, TextItem ''One'', NewlineItem, TextItem ''a b'',
        ImageItem ''x.png'', NewlineItem]"
  "traverse (Element ''BODY'' []
               [Element ''H1'' [] [TextNode ''Two''],
                Element ''P'' [] [TextNode ''a  b'', Element ''IMG'' [(''src'', ''x.png'')] []]])
     = [NewlineItem, NewlineItem, TextItem ''Two'', NewlineItem, TextItem ''a b'',
        ImageItem ''x.png'', NewlineItem]"
  by code_simp+

lemma demo_texts:
  "trim ''One'' = ''One''" "trim ''Two'' = ''Two''" "trim ''a b'' = ''a b''"
  "chunks (length ''One'') 40 ''One'' = [''One'']"
  "chunks (length ''Two'') 40 ''Two'' = [''Two'']"
  "chunks (length ''a b'') 40 ''a b'' = [''a b'']"
  by code_simp+

lemma demo_picture:
  "resolveImagePath Some ''ch1.xhtml'' ''x.png'' = Inr (Some ''x.png'')"
  "resolveImagePath Some ''ch2.xhtml'' ''x.png'' = Inr (Some ''x.png'')"
  "image_format ''x.png'' = ''PNG''"
  by code_simp+

lemmas render_eval =
  render_chapter_def flush_text_def place_line_def addNewPage_def render_image_def
  place_image_def Let_def margin_def lineHeight_def

lemma demo_chapter_1:
  "render_chapter demo_env demo_archive ''ch1.xhtml'' ''One''
     \<lparr>y_pos = 20, ops = [], fullTextPreview = []\<rparr>
   = \<lparr>y_pos = 169,
      ops = [DrawText ''One'' 20 27, DrawText ''a b'' 20 (75 / 2),
             DrawImage ''PNGDATA'' ''PNG'' 20 (89 / 2) 170 100],
      fullTextPreview = ''One\<newline>a b\<newline>''\<rparr>"
  by (simp add: render_eval demo_fields demo_html_def demo_items demo_texts demo_picture
      demo_entries demo_scaling del: traverse.simps)


lemmas convert_eval =
  convertEpubToPdf_def getFontBase64_def cached_font_def truthy_def convert_archive_def
  process_chapter_def process_href_def opf_dir_def initial_loop_state_def

lemma demo_conversion:
  "convertEpubToPdf demo_env cached_font []
     = (Inr \<lparr>blob =
              [DrawText ''One'' 20 27, DrawText ''a b'' 20 (75 / 2),
               DrawImage ''PNGDATA'' ''PNG'' 20 (89 / 2) 170 100,
               DrawText ''Two'' 20 176, DrawText ''a b'' 20 (373 / 2), AddPage,
               DrawImage ''PNGDATA'' ''PNG'' 20 20 170 100],
             textPreview = ''One\<newline>a b\<newline>Two\<newline>a b\<newline>''\<rparr>,
        cached_font,
        [OnProgress 1, OnProgress 10, OnProgress 15, OnProgress 20, NewJsPDF,
         OnProgress 45, OnProgress 70, OnProgress 98, OnProgress 100])"
  by (simp add: convert_eval render_eval demo_fields demo_entries demo_container_path
      demo_spine demo_lookups demo_html_def demo_items demo_texts demo_picture demo_scaling
      chapter_percent_def double_eval del: traverse.simps)

section \<open>Properties of the chapter loop\<close>

lemma absent_id_skipped:
  assumes "manifest_get e manifest spineId = JsUndefined"
  shows "process_chapter e z manifest opfDir totalChapters spineId st = st"
  using assms by (simp add: process_chapter_def)

lemma ghost_fields:
  "loadAsync ghost_env file = Some ghost_archive"
  "parseXml ghost_env s = ghost_opf"
  "parseHtml ghost_env s
     = \<lparr>body = Some (Element ''BODY'' [] [Element ''P'' [] [TextNode s]]),
        documentElement = OtherNode\<rparr>"
  "splitTextToSize ghost_env t w = chunks (length t) 40 t"
  "pageHeight ghost_env = 297"
  "objectPrototype ghost_env = demo_prototype"
  "maxLineWidth ghost_env = 170"
  by (simp_all add: ghost_env_def demo_env_def maxLineWidth_def margin_def double_eval)

lemma ghost_entries:
  "zip_file ghost_archive ''META-INF/container.xml'' = Some demo_container"
  "zip_file ghost_archive ''content.opf'' = Some ''opf''"
  "zip_file ghost_archive ''ch1.xhtml'' = Some ''One''"
  "zip_file ghost_archive ''ch2.xhtml'' = Some ''Two''"
  "zip_file ghost_archive ''function Object() { [native code] }'' = Some ''Ghost''"
  by (simp_all add: zip_file_def ghost_archive_def)

lemma ghost_manifest:
  "build_manifest ghost_opf = [''c1'' \<mapsto> ''ch1.xhtml'', ''c2'' \<mapsto> ''ch2.xhtml'']"
  by (simp add: build_manifest_def ghost_opf_def tagged_or_fallback_def getElementsByTagName_def
      doc_elements_def add_item_def getAttribute_def truthy_def)

lemma ghost_spine: "spine_ids ghost_opf = [''c1'', ''constructor'', ''c2'']"
  by (simp add: spine_ids_def ghost_opf_def tagged_or_fallback_def getElementsByTagName_def
      doc_elements_def idref_of_def getAttribute_def truthy_def)

lemma ghost_lookups:
  "manifest_get ghost_env (build_manifest ghost_opf) ''c1'' = JsString ''ch1.xhtml''"
  "manifest_get ghost_env (build_manifest ghost_opf) ''constructor''
     = JsObject ''function Object() { [native code] }''"
  "manifest_get ghost_env (build_manifest ghost_opf) ''c2'' = JsString ''ch2.xhtml''"
  by (simp_all add: manifest_get_def ghost_manifest ghost_fields demo_prototype_def)

lemma ghost_items:
  "traverse (Element ''BODY'' [] [Element ''P'' [] [TextNode ''One'']])
     = [TextItem ''One'', NewlineItem]"
  "traverse (Element ''BODY'' [] [Element ''P'' [] [TextNode ''Two'']])
     = [TextItem ''Two'', NewlineItem]"
  "traverse (Element ''BODY'' [] [Element ''P'' [] [TextNode ''Ghost'']])
     = [TextItem ''Ghost'', NewlineItem]"
  by code_simp+

lemma ghost_texts:
  "trim ''Ghost'' = ''Ghost''"
  "chunks (length ''Ghost'') 40 ''Ghost'' = [''Ghost'']"
  by code_simp+

text \<open>
  Claim C7.  A spine id is skipped, the state of the loop left as it is, when
  \<^verbatim>\<open>manifest[id]\<close> is \<^verbatim>\<open>undefined\<close> (\<open>absent_id_skipped\<close>).  It is not skipped when it
  has no manifest item but names a property the manifest object inherits.  For the spine
  \<^verbatim>\<open>c1, constructor, c2\<close>, where no item has the id \<^verbatim>\<open>constructor\<close>, the conversion
  takes the function \<^verbatim>\<open>Object\<close> for the href, counts three chapters and reports 95
  percent after the third, and draws the text of the archive entry whose name is the
  function as a string.
\<close>

theorem inherited_id_not_skipped:
  "build_manifest ghost_opf ''constructor'' = None
   \<and> convertEpubToPdf ghost_env cached_font []
     = (Inr \<lparr>blob = [DrawText ''One'' 20 20, DrawText ''Ghost'' 20 (89 / 2),
                     DrawText ''Two'' 20 69],
             textPreview = ''One\<newline>Ghost\<newline>Two\<newline>''\<rparr>,
        cached_font,
        [OnProgress 1, OnProgress 10, OnProgress 15, OnProgress 20, NewJsPDF,
         OnProgress 45, OnProgress 70, OnProgress 95, OnProgress 98, OnProgress 100])"
proof -
  have a: "build_manifest ghost_opf ''constructor'' = None" by (simp add: ghost_manifest)
  have b: "convertEpubToPdf ghost_env cached_font []
     = (Inr \<lparr>blob = [DrawText ''One'' 20 20, DrawText ''Ghost'' 20 (89 / 2),
                     DrawText ''Two'' 20 69],
             textPreview = ''One\<newline>Ghost\<newline>Two\<newline>''\<rparr>,
        cached_font,
        [OnProgress 1, OnProgress 10, OnProgress 15, OnProgress 20, NewJsPDF,
         OnProgress 45, OnProgress 70, OnProgress 95, OnProgress 98, OnProgress 100])"
    by (simp add: convert_eval render_eval ghost_fields ghost_entries demo_container_path
        ghost_spine ghost_lookups ghost_items demo_texts ghost_texts
        chapter_percent_def double_eval del: traverse.simps)
  from a b show ?thesis by simp
qed

section \<open>Progress reports\<close>

lemma chapter_percent_mono:
  assumes "n \<le> m"
  shows "chapter_percent n t \<le> chapter_percent m t"
proof -
  have "real n / real t \<le> real m / real t" using assms by (intro divide_right_mono) simp_all
  then have "double_of (real n / real t) \<le> double_of (real m / real t)" by (rule double_of_mono)
  then have "double_of (real n / real t) * 75 \<le> double_of (real m / real t) * 75" by simp
  then have "double_of (double_of (real n / real t) * 75)
               \<le> double_of (double_of (real m / real t) * 75)"
    by (rule double_of_mono)
  then show ?thesis unfolding chapter_percent_def by (intro add_left_mono floor_mono)
qed

lemma chapter_percent_le:
  assumes "n \<le> t"
  shows "chapter_percent n t \<le> 95"
proof -
  have "real n / real t \<le> 1" using assms by (cases "t = 0") simp_all
  then have "double_of (real n / real t) \<le> double_of 1" by (rule double_of_mono)
  also have "double_of 1 = 1" using double_of_nat [of 1] by simp
  finally have "double_of (real n / real t) * 75 \<le> 1 * 75" by (rule mult_right_mono) simp
  then have "double_of (real n / real t) * 75 \<le> 75" by (simp only: mult_1)
  then have "double_of (double_of (real n / real t) * 75) \<le> double_of 75" by (rule double_of_mono)
  also have "double_of 75 = 75" using double_of_nat [of 75] by simp
  finally have "\<lfloor>double_of (double_of (real n / real t) * 75)\<rfloor> \<le> \<lfloor>75::real\<rfloor>"
    by (rule floor_mono)
  then show ?thesis by (simp add: chapter_percent_def)
qed

lemma chapter_percent_ge: "20 \<le> chapter_percent n t"
proof -
  have "0 \<le> double_of (real n / real t)" by (intro double_of_nonneg) simp
  then have "0 \<le> double_of (double_of (real n / real t) * 75)" by (intro double_of_nonneg) simp
  then show ?thesis by (simp add: chapter_percent_def)
qed

lemma process_href_progress:
  assumes "sorted (percents (reported st))"
    and "\<forall>p\<in>set (percents (reported st)).
           20 \<le> p \<and> p \<le> chapter_percent (processedChapters st) t"
  shows "sorted (percents (reported (process_href e z opfDir t href st)))
    \<and> (\<forall>p\<in>set (percents (reported (process_href e z opfDir t href st))).
          20 \<le> p \<and> p \<le> chapter_percent (processedChapters
                  (process_href e z opfDir t href st)) t)
    \<and> processedChapters (process_href e z opfDir t href st) \<le> processedChapters st + 1"
proof -
  have mono: "chapter_percent (processedChapters st) t
                \<le> chapter_percent (processedChapters st + 1) t"
    by (rule chapter_percent_mono) simp
  have ge: "20 \<le> chapter_percent (processedChapters st + 1) t" by (rule chapter_percent_ge)
  show ?thesis using assms mono ge
    by (simp add: process_href_def Let_def percents_append sorted_append) force
qed

lemma process_chapter_progress:
  assumes "sorted (percents (reported st))"
    and "\<forall>p\<in>set (percents (reported st)).
           20 \<le> p \<and> p \<le> chapter_percent (processedChapters st) t"
  shows "sorted (percents (reported (process_chapter e z manifest opfDir t spineId st)))
    \<and> (\<forall>p\<in>set (percents (reported (process_chapter e z manifest opfDir t spineId st))).
          20 \<le> p \<and> p \<le> chapter_percent (processedChapters
                  (process_chapter e z manifest opfDir t spineId st)) t)
    \<and> processedChapters (process_chapter e z manifest opfDir t spineId st)
          \<le> processedChapters st + 1"
proof (cases "manifest_get e manifest spineId")
  case JsUndefined
  then show ?thesis using assms by (simp add: process_chapter_def)
next
  case (JsString href)
  then show ?thesis using assms process_href_progress [OF assms, of e z opfDir href]
    by (simp add: process_chapter_def)
next
  case (JsObject shown)
  then show ?thesis using process_href_progress [OF assms, of e z opfDir shown]
    by (simp add: process_chapter_def)
qed

lemma process_chapters_progress:
  assumes "sorted (percents (reported st))"
    and "\<forall>p\<in>set (percents (reported st)).
           20 \<le> p \<and> p \<le> chapter_percent (processedChapters st) t"
  shows "sorted (percents (reported (process_chapters e z manifest opfDir t ids st)))
    \<and> (\<forall>p\<in>set (percents (reported (process_chapters e z manifest opfDir t ids st))).
          20 \<le> p \<and> p \<le> chapter_percent (processedChapters
                  (process_chapters e z manifest opfDir t ids st)) t)
    \<and> processedChapters (process_chapters e z manifest opfDir t ids st)
          \<le> processedChapters st + length ids"
  using assms
proof (induction ids arbitrary: st)
  case Nil
  then show ?case by simp
next
  case (Cons spineId ids)
  let ?st1 = "process_chapter e z manifest opfDir t spineId st"
  have step: "sorted (percents (reported ?st1))
    \<and> (\<forall>p\<in>set (percents (reported ?st1)).
          20 \<le> p \<and> p \<le> chapter_percent (processedChapters ?st1) t)
    \<and> processedChapters ?st1 \<le> processedChapters st + 1"
    using Cons.prems by (rule process_chapter_progress)
  from Cons.IH [of ?st1] step show ?case by auto
qed

lemma loop_percents:
  "sorted (percents (reported (process_chapters e z manifest opfDir (length ids) ids
                                 initial_loop_state)))
   \<and> (\<forall>p\<in>set (percents (reported (process_chapters e z manifest opfDir (length ids) ids
                                 initial_loop_state))). 20 \<le> p \<and> p \<le> 95)"
proof -
  let ?st = "process_chapters e z manifest opfDir (length ids) ids initial_loop_state"
  have init: "sorted (percents (reported initial_loop_state))"
    "\<forall>p\<in>set (percents (reported initial_loop_state)).
       20 \<le> p \<and> p \<le> chapter_percent (processedChapters initial_loop_state) (length ids)"
    by (simp_all add: initial_loop_state_def)
  from process_chapters_progress [OF init]
  have srt: "sorted (percents (reported ?st))"
    and bnd: "\<forall>p\<in>set (percents (reported ?st)).
          20 \<le> p \<and> p \<le> chapter_percent (processedChapters ?st) (length ids)"
    and cnt: "processedChapters ?st \<le> processedChapters initial_loop_state + length ids"
    by blast+
  from cnt have "processedChapters ?st \<le> length ids" by (simp add: initial_loop_state_def)
  then have "chapter_percent (processedChapters ?st) (length ids) \<le> 95"
    by (rule chapter_percent_le)
  then have "\<forall>p\<in>set (percents (reported ?st)). 20 \<le> p \<and> p \<le> 95"
    using bnd by (intro ballI) (drule bspec, assumption, linarith)
  with srt show ?thesis by simp
qed

lemma convert_archive_percents:
  "sorted (percents (snd (convert_archive e file)))
   \<and> (\<forall>p\<in>set (percents (snd (convert_archive e file))). 10 \<le> p \<and> p \<le> 100)
   \<and> (\<not> isl (fst (convert_archive e file)) \<longrightarrow>
        percents (snd (convert_archive e file)) \<noteq> []
        \<and> last (percents (snd (convert_archive e file))) = 100)"
  using loop_percents
  by (auto simp: convert_archive_def Let_def percents_append sorted_append
      split: option.splits) force+

text \<open>
  Claim C5.  For every input, the percentages the conversion reports are non-decreasing
  and lie between 0 and 100, and when the conversion succeeds the last one is 100.
\<close>

theorem progress_monotone:
  "sorted (percents (snd (snd (convertEpubToPdf e fs file))))
   \<and> (\<forall>p\<in>set (percents (snd (snd (convertEpubToPdf e fs file)))). 0 \<le> p \<and> p \<le> 100)
   \<and> (\<not> isl (fst (convertEpubToPdf e fs file)) \<longrightarrow>
        percents (snd (snd (convertEpubToPdf e fs file))) \<noteq> []
        \<and> last (percents (snd (snd (convertEpubToPdf e fs file)))) = 100)"
proof -
  obtain r fs1 fx where font: "getFontBase64 e fs = (r, fs1, fx)"
    by (cases "getFontBase64 e fs") auto
  have quiet: "percents fx = []" using getFontBase64_effects [of e fs] font by simp
  obtain res gx where arch: "convert_archive e file = (res, gx)"
    by (cases "convert_archive e file") auto
  have gx: "sorted (percents gx)" "\<forall>p\<in>set (percents gx). 10 \<le> p \<and> p \<le> 100"
    "\<not> isl res \<longrightarrow> percents gx \<noteq> [] \<and> last (percents gx) = 100"
    using convert_archive_percents [of e "file"] arch by simp_all
  show ?thesis
  proof (cases r)
    case (Inl err)
    then show ?thesis using font quiet by (simp add: convertEpubToPdf_def)
  next
    case (Inr f)
    then have "convertEpubToPdf e fs file = (res, fs1, OnProgress 1 # fx @ gx)"
      using font arch by (simp add: convertEpubToPdf_def)
    then show ?thesis using quiet gx by (fastforce simp: percents_append)
  qed
qed

theorem progress_monotone_witness:
  "percents (snd (snd (convertEpubToPdf demo_env cached_font [])))
     = [1, 10, 15, 20, 45, 70, 98, 100]
   \<and> sorted (percents (snd (snd (convertEpubToPdf demo_env cached_font []))))
   \<and> \<not> isl (fst (convertEpubToPdf demo_env cached_font []))
   \<and> last (percents (snd (snd (convertEpubToPdf demo_env cached_font [])))) = 100"
  using progress_monotone [of demo_env cached_font "[]"] demo_conversion
  by simp

section \<open>The cursor stays between the margins\<close>

lemma convert_archive_blob:
  assumes "fst (convert_archive e file) = Inr r"
  shows "\<exists>z manifest opfDir t ids.
           blob r = ops (pdf (process_chapters e z manifest opfDir t ids initial_loop_state))
           \<and> textPreview r
               = fullTextPreview (pdf (process_chapters e z manifest opfDir t ids initial_loop_state))"
  using assms
  by (auto simp: convert_archive_def Let_def split: option.splits if_splits) blast

lemma convert_result:
  assumes "fst (convertEpubToPdf e fs file) = Inr r"
  shows "fst (convert_archive e file) = Inr r"
  using assms
  by (auto simp: convertEpubToPdf_def split: prod.splits sum.splits)

lemma inv_addNewPage: "cursor_inv e s \<Longrightarrow> cursor_inv e (addNewPage s)"
  by (simp add: cursor_inv_def addNewPage_def)

lemma inv_place_line:
  assumes "2 * margin \<le> pageHeight e" and "cursor_inv e s"
  shows "cursor_inv e (place_line e line s)"
  using assms
  by (auto simp: cursor_inv_def place_line_def addNewPage_def Let_def margin_def lineHeight_def)

lemma inv_place_lines:
  assumes "2 * margin \<le> pageHeight e" and "cursor_inv e s"
  shows "cursor_inv e (place_lines e lines s)"
  using assms(2)
proof (induction lines arbitrary: s)
  case Nil
  then show ?case by simp
next
  case (Cons line lines)
  then show ?case using inv_place_line [OF assms(1)] by simp
qed

lemma inv_preview_update:
  "cursor_inv e (s\<lparr>fullTextPreview := t\<rparr>) = cursor_inv e s"
  by (simp add: cursor_inv_def)

lemma inv_flush_text:
  assumes "2 * margin \<le> pageHeight e" and "cursor_inv e s"
  shows "cursor_inv e (flush_text e textBuffer s)"
  using inv_place_lines [OF assms] assms(2)
  by (simp add: flush_text_def Let_def inv_preview_update)

lemma finalH_nonneg: "0 \<le> maxLineWidth e \<Longrightarrow> 0 \<le> finalH e imgW imgH"
proof -
  assume "0 \<le> maxLineWidth e"
  then have "0 \<le> double_of (maxLineWidth e / real imgW)" by (intro double_of_nonneg) simp
  then have "0 \<le> scaleFactor e imgW" by (simp add: scaleFactor_def)
  then show ?thesis unfolding finalH_def by (intro double_of_nonneg) simp
qed

lemma inv_place_image:
  assumes "2 * margin \<le> pageHeight e" and "0 \<le> maxLineWidth e" and "cursor_inv e s"
  shows "cursor_inv e (place_image e imgData format imgW imgH s)"
  using assms(1,3) finalH_nonneg [OF assms(2), of imgW imgH]
  by (auto simp: cursor_inv_def place_image_def addNewPage_def Let_def margin_def lineHeight_def)

lemma inv_render_image:
  assumes "2 * margin \<le> pageHeight e" and "0 \<le> maxLineWidth e" and "cursor_inv e s"
  shows "cursor_inv e (render_image e z fullPath src s)"
  using assms inv_place_image [OF assms]
  by (auto simp: render_image_def split: sum.splits option.splits)

lemma inv_render_item:
  assumes "2 * margin \<le> pageHeight e" and "0 \<le> maxLineWidth e" and "cursor_inv e (snd bs)"
  shows "cursor_inv e (snd (render_item e z fullPath item bs))"
proof (cases bs)
  case (Pair textBuffer s)
  then have s: "cursor_inv e s" using assms(3) by simp
  have fl: "cursor_inv e (flush_text e textBuffer s)" using inv_flush_text [OF assms(1) s] .
  show ?thesis
  proof (cases item)
    case (TextItem v)
    then show ?thesis using Pair s by simp
  next
    case (ImageItem v)
    then show ?thesis using Pair inv_render_image [OF assms(1,2) fl] by simp
  next
    case NewlineItem
    have "cursor_inv e ((flush_text e textBuffer s)
            \<lparr>y_pos := y_pos (flush_text e textBuffer s) + lineHeight * 0.5\<rparr>)"
      using fl by (simp add: cursor_inv_def lineHeight_def)
    then show ?thesis using Pair NewlineItem inv_addNewPage by (simp add: Let_def)
  qed
qed

lemma inv_render_items:
  assumes "2 * margin \<le> pageHeight e" and "0 \<le> maxLineWidth e" and "cursor_inv e (snd bs)"
  shows "cursor_inv e (snd (render_items e z fullPath items bs))"
  using assms(3)
proof (induction items arbitrary: bs)
  case Nil
  then show ?case by simp
next
  case (Cons item items)
  then show ?case using inv_render_item [OF assms(1,2)] by simp
qed

lemma inv_render_chapter:
  assumes "2 * margin \<le> pageHeight e" and "0 \<le> maxLineWidth e" and "cursor_inv e s"
  shows "cursor_inv e (render_chapter e z fullPath content s)"
proof -
  let ?items = "traverse (case body (parseHtml e content) of
                            Some b \<Rightarrow> b | None \<Rightarrow> documentElement (parseHtml e content))"
  obtain textBuffer s1 where r: "render_items e z fullPath ?items ([], s) = (textBuffer, s1)"
    by (cases "render_items e z fullPath ?items ([], s)") auto
  have "cursor_inv e (snd (render_items e z fullPath ?items ([], s)))"
    using inv_render_items [OF assms(1,2)] assms(3) by simp
  then have "cursor_inv e s1" using r by simp
  then have fl: "cursor_inv e (flush_text e textBuffer s1)" using inv_flush_text [OF assms(1)] by simp
  then have "cursor_inv e ((flush_text e textBuffer s1)
               \<lparr>y_pos := y_pos (flush_text e textBuffer s1) + lineHeight * 2\<rparr>)"
    by (simp add: cursor_inv_def lineHeight_def)
  then show ?thesis using r fl inv_addNewPage by (simp add: render_chapter_def Let_def)
qed

lemma inv_process_href:
  assumes "2 * margin \<le> pageHeight e" and "0 \<le> maxLineWidth e" and "cursor_inv e (pdf st)"
  shows "cursor_inv e (pdf (process_href e z opfDir t href st))"
  using assms(3) inv_render_chapter [OF assms]
  by (auto simp: process_href_def Let_def split: option.splits)

lemma inv_process_chapter:
  assumes "2 * margin \<le> pageHeight e" and "0 \<le> maxLineWidth e" and "cursor_inv e (pdf st)"
  shows "cursor_inv e (pdf (process_chapter e z manifest opfDir t spineId st))"
  using assms(3) inv_process_href [OF assms]
  by (auto simp: process_chapter_def split: js_value.splits)

lemma inv_process_chapters:
  assumes "2 * margin \<le> pageHeight e" and "0 \<le> maxLineWidth e" and "cursor_inv e (pdf st)"
  shows "cursor_inv e (pdf (process_chapters e z manifest opfDir t ids st))"
  using assms(3)
proof (induction ids arbitrary: st)
  case Nil
  then show ?case by simp
next
  case (Cons spineId ids)
  then show ?case using inv_process_chapter [OF assms(1,2)] by simp
qed

text \<open>
  Claim C3.  On a page at least two margins high and more than two margins wide, every
  text line and every image of the converted document is placed with the cursor \<open>y\<close>
  between the top margin and the page height minus the margin.  When the cursor is past
  the bottom margin as a line or an image is about to be placed, a page is added and
  the cursor reset to the top margin first, and the element is placed there.
\<close>

theorem placement_within_margins:
  assumes "2 * margin \<le> pageHeight e" and "2 * margin < pageWidth e"
  shows "(\<forall>r. fst (convertEpubToPdf e fs file) = Inr r \<longrightarrow>
            (\<forall>op\<in>set (blob r). placed_in_bounds e op))
    \<and> (pageHeight e - margin < y_pos s \<longrightarrow>
         place_line e line s
           = s\<lparr>ops := ops s @ [AddPage, DrawText line margin margin],
               y_pos := margin + lineHeight\<rparr>)
    \<and> (pageHeight e - margin < y_pos s \<and> addImage e imgData format \<longrightarrow>
         ops (place_image e imgData format imgW imgH s)
           = ops s @ [AddPage, DrawImage imgData format margin margin
                        (finalW e imgW) (finalH e imgW imgH)])"
proof -
  have w: "0 \<le> maxLineWidth e"
    unfolding maxLineWidth_def using assms(2) by (intro double_of_nonneg) simp
  have init: "cursor_inv e (pdf initial_loop_state)"
    by (simp add: cursor_inv_def initial_loop_state_def margin_def)
  have a: "\<forall>r. fst (convertEpubToPdf e fs file) = Inr r \<longrightarrow>
            (\<forall>op\<in>set (blob r). placed_in_bounds e op)"
  proof (intro allI impI)
    fix r
    assume "fst (convertEpubToPdf e fs file) = Inr r"
    then have "fst (convert_archive e file) = Inr r" by (rule convert_result)
    then obtain z manifest opfDir t ids where
      b: "blob r = ops (pdf (process_chapters e z manifest opfDir t ids initial_loop_state))"
      using convert_archive_blob by blast
    have "cursor_inv e (pdf (process_chapters e z manifest opfDir t ids initial_loop_state))"
      using inv_process_chapters [OF assms(1) w init] .
    then show "\<forall>op\<in>set (blob r). placed_in_bounds e op" using b by (simp add: cursor_inv_def)
  qed
  have b: "pageHeight e - margin < y_pos s \<longrightarrow>
         place_line e line s
           = s\<lparr>ops := ops s @ [AddPage, DrawText line margin margin],
               y_pos := margin + lineHeight\<rparr>"
    by (simp add: place_line_def addNewPage_def Let_def lineHeight_def)
  have h: "0 \<le> finalH e imgW imgH" using w by (rule finalH_nonneg)
  have c: "pageHeight e - margin < y_pos s \<and> addImage e imgData format \<longrightarrow>
         ops (place_image e imgData format imgW imgH s)
           = ops s @ [AddPage, DrawImage imgData format margin margin
                        (finalW e imgW) (finalH e imgW imgH)]"
    using h by (auto simp: place_image_def addNewPage_def Let_def)
  from a b c show ?thesis by blast
qed

theorem placement_within_margins_witness:
  "2 * margin \<le> pageHeight demo_env \<and> 2 * margin < pageWidth demo_env
   \<and> fst (convertEpubToPdf demo_env cached_font [])
     = Inr \<lparr>blob =
              [DrawText ''One'' 20 27, DrawText ''a b'' 20 (75 / 2),
               DrawImage ''PNGDATA'' ''PNG'' 20 (89 / 2) 170 100,
               DrawText ''Two'' 20 176, DrawText ''a b'' 20 (373 / 2), AddPage,
               DrawImage ''PNGDATA'' ''PNG'' 20 20 170 100],
             textPreview = ''One\<newline>a b\<newline>Two\<newline>a b\<newline>''\<rparr>
   \<and> list_all (placed_in_bounds demo_env)
        [DrawText ''One'' 20 27, DrawText ''a b'' 20 (75 / 2),
         DrawImage ''PNGDATA'' ''PNG'' 20 (89 / 2) 170 100,
         DrawText ''Two'' 20 176, DrawText ''a b'' 20 (373 / 2), AddPage,
         DrawImage ''PNGDATA'' ''PNG'' 20 20 170 100]
   \<and> pageHeight demo_env - margin < y_pos \<lparr>y_pos = 280, ops = [], fullTextPreview = []\<rparr>
   \<and> place_line demo_env ''x'' \<lparr>y_pos = 280, ops = [], fullTextPreview = []\<rparr>
       = \<lparr>y_pos = 27, ops = [AddPage, DrawText ''x'' 20 20], fullTextPreview = []\<rparr>
   \<and> addImage demo_env ''PNGDATA'' ''PNG''
   \<and> ops (place_image demo_env ''PNGDATA'' ''PNG'' 340 200
             \<lparr>y_pos = 280, ops = [], fullTextPreview = []\<rparr>)
       = [AddPage, DrawImage ''PNGDATA'' ''PNG'' 20 20 170 100]"
proof -
  have h1: "2 * margin \<le> pageHeight demo_env" by (simp add: margin_def demo_env_def)
  have h2: "2 * margin < pageWidth demo_env" by (simp add: margin_def demo_env_def)
  have sf: "finalW demo_env 340 = 170" "finalH demo_env 340 200 = 100"
    by (simp_all add: demo_scaling)
  have far: "pageHeight demo_env - margin < y_pos \<lparr>y_pos = 280, ops = [], fullTextPreview = []\<rparr>"
    by (simp add: margin_def demo_env_def)
  have img: "addImage demo_env ''PNGDATA'' ''PNG''" by (simp add: demo_env_def)
  from placement_within_margins [OF h1 h2, of cached_font "[]"
      "\<lparr>y_pos = 280, ops = [], fullTextPreview = []\<rparr>" "''x''" "''PNGDATA''" "''PNG''" 340 200]
    demo_conversion h1 h2 sf far img
  show ?thesis by (simp add: margin_def lineHeight_def)
qed

section \<open>The text preview\<close>

lemma preview_addNewPage: "fullTextPreview (addNewPage s) = fullTextPreview s"
  by (simp add: addNewPage_def)

lemma preview_place_line: "fullTextPreview (place_line e line s) = fullTextPreview s"
  by (simp add: place_line_def addNewPage_def Let_def)

lemma preview_place_lines: "fullTextPreview (place_lines e lines s) = fullTextPreview s"
  by (induction lines arbitrary: s) (simp_all add: preview_place_line)

lemma preview_place_image:
  "fullTextPreview (place_image e imgData format imgW imgH s) = fullTextPreview s"
  by (simp add: place_image_def addNewPage_def Let_def)

lemma preview_render_image: "fullTextPreview (render_image e z fullPath src s) = fullTextPreview s"
  by (simp add: render_image_def preview_place_image split: sum.splits option.splits)

lemma preview_flush_text:
  "fullTextPreview (flush_text e textBuffer s)
     = (if textBuffer \<noteq> [] \<and> trim textBuffer \<noteq> [] \<and> length (fullTextPreview s) < 15000
        then fullTextPreview s @ trim textBuffer @ [CHR 0x0A]
        else fullTextPreview s)"
  by (simp add: flush_text_def Let_def preview_place_lines)

lemma preview_flush_append:
  "fullTextPreview (flush_text e textBuffer s)
     = foldl append_capped (fullTextPreview s) (flushed_paragraph textBuffer)"
  by (simp add: preview_flush_text flushed_paragraph_def append_capped_def)

lemma preview_render_items:
  "fullTextPreview (flush_text e (fst (render_items e z fullPath items (textBuffer, s)))
                      (snd (render_items e z fullPath items (textBuffer, s))))
     = foldl append_capped (fullTextPreview s) (item_paragraphs items textBuffer)"
proof (induction items arbitrary: textBuffer s)
  case Nil
  show ?case by (simp add: preview_flush_append)
next
  case (Cons item items)
  show ?case
  proof (cases item)
    case (TextItem v)
    then show ?thesis using Cons.IH [of "textBuffer @ v" s] by simp
  next
    case (ImageItem v)
    then show ?thesis
      using Cons.IH [of "[]" "render_image e z fullPath v (flush_text e textBuffer s)"]
      by (simp add: preview_render_image preview_flush_append)
  next
    case NewlineItem
    define s3 where "s3 =
      (let s1 = flush_text e textBuffer s;
           s2 = s1\<lparr>y_pos := y_pos s1 + lineHeight * 0.5\<rparr>
       in if y_pos s2 > pageHeight e - margin then addNewPage s2 else s2)"
    have pv: "fullTextPreview s3 = fullTextPreview (flush_text e textBuffer s)"
      by (simp add: s3_def Let_def preview_addNewPage)
    have "render_item e z fullPath item (textBuffer, s) = ([], s3)"
      using NewlineItem by (simp add: s3_def Let_def)
    then have step: "render_items e z fullPath (item # items) (textBuffer, s)
                 = render_items e z fullPath items ([], s3)"
      by simp
    have "fullTextPreview (flush_text e (fst (render_items e z fullPath items ([], s3)))
                             (snd (render_items e z fullPath items ([], s3))))
            = foldl append_capped (fullTextPreview s3) (item_paragraphs items [])"
      by (rule Cons.IH)
    also have "\<dots> = foldl append_capped (fullTextPreview s) (item_paragraphs (item # items) textBuffer)"
      using NewlineItem by (simp add: pv preview_flush_append)
    finally show ?thesis by (simp only: step)
  qed
qed

lemma preview_render_chapter:
  "fullTextPreview (render_chapter e z fullPath content s)
     = foldl append_capped (fullTextPreview s)
         (item_paragraphs
            (traverse (case body (parseHtml e content) of
                         Some b \<Rightarrow> b
                       | None \<Rightarrow> documentElement (parseHtml e content))) [])"
proof -
  let ?items = "traverse (case body (parseHtml e content) of
                            Some b \<Rightarrow> b
                          | None \<Rightarrow> documentElement (parseHtml e content))"
  obtain textBuffer s1 where r: "render_items e z fullPath ?items ([], s) = (textBuffer, s1)"
    by (cases "render_items e z fullPath ?items ([], s)") auto
  have "fullTextPreview (flush_text e textBuffer s1)
          = foldl append_capped (fullTextPreview s) (item_paragraphs ?items [])"
    using preview_render_items [of e z fullPath ?items "[]" s] r by simp
  then show ?thesis using r by (simp add: render_chapter_def Let_def preview_addNewPage)
qed

lemma preview_process_href:
  "fullTextPreview (pdf (process_href e z opfDir t href st))
     = foldl append_capped (fullTextPreview (pdf st)) (href_paragraphs e z opfDir href)"
  by (simp add: process_href_def href_paragraphs_def Let_def preview_render_chapter
      split: option.splits)

lemma preview_process_chapter:
  "fullTextPreview (pdf (process_chapter e z manifest opfDir t spineId st))
     = foldl append_capped (fullTextPreview (pdf st))
         (chapter_paragraphs e z manifest opfDir spineId)"
  by (simp add: process_chapter_def chapter_paragraphs_def preview_process_href
      split: js_value.splits)

lemma preview_process_chapters:
  "fullTextPreview (pdf (process_chapters e z manifest opfDir t ids st))
     = foldl append_capped (fullTextPreview (pdf st))
         (concat (map (chapter_paragraphs e z manifest opfDir) ids))"
  by (induction ids arbitrary: st) (simp_all add: preview_process_chapter)

lemma preview_convert_archive:
  assumes "fst (convert_archive e file) = Inr r"
  shows "textPreview r = foldl append_capped [] (book_paragraphs e file)"
  using assms
  by (auto simp: convert_archive_def book_paragraphs_def Let_def preview_process_chapters
      initial_loop_state_def split: option.splits if_splits)

text \<open>What appending under the cap gives, whatever the paragraphs are.\<close>

lemma capped_fold:
  "length (foldl append_capped [] ps) < 15000
   \<or> (\<exists>before p. p \<in> set ps \<and> foldl append_capped [] ps = before @ p @ [CHR 0x0A]
                   \<and> length before < 15000)"
proof (induction ps rule: rev_induct)
  case Nil
  show ?case by simp
next
  case (snoc p ps)
  let ?r = "foldl append_capped [] ps"
  show ?case
  proof (cases "length ?r < 15000")
    case True
    then have "foldl append_capped [] (ps @ [p]) = ?r @ p @ [CHR 0x0A]"
      by (simp add: append_capped_def)
    then show ?thesis using True by auto
  next
    case False
    then have same: "foldl append_capped [] (ps @ [p]) = ?r" by (simp add: append_capped_def)
    from False snoc.IH obtain before q where
      "q \<in> set ps" "?r = before @ q @ [CHR 0x0A]" "length before < 15000"
      by blast
    then show ?thesis using same by auto
  qed
qed

lemma capped_fold_bound:
  assumes "\<forall>p\<in>set ps. length p \<le> L"
  shows "length (foldl append_capped [] ps) \<le> 15000 + L"
proof -
  from capped_fold [of ps] show ?thesis
  proof
    assume "length (foldl append_capped [] ps) < 15000"
    then show ?thesis by simp
  next
    assume "\<exists>before p. p \<in> set ps \<and> foldl append_capped [] ps = before @ p @ [CHR 0x0A]
                   \<and> length before < 15000"
    then obtain before p where p: "p \<in> set ps"
      and r: "foldl append_capped [] ps = before @ p @ [CHR 0x0A]"
      and b: "length before < 15000"
      by blast
    have "length p \<le> L" using assms p by blast
    then show ?thesis using r b by simp
  qed
qed

text \<open>
  Claim C2, as the source has it.  The cap of 15000 characters is tested before a
  paragraph is appended, not after, and a paragraph is never cut.  The preview a
  conversion returns is the paragraphs of the book in order, each with its newline,
  appended while the preview has fewer than 15000 characters.  So it has fewer than 15000
  characters, or it is fewer than 15000 characters followed by one whole paragraph of the
  book and a newline; when no paragraph of the book is longer than \<open>L\<close>, the preview has
  at most \<open>15000 + L\<close> characters.
\<close>

theorem preview_capped_by_paragraph:
  "\<forall>r. fst (convertEpubToPdf e fs file) = Inr r \<longrightarrow>
      textPreview r = foldl append_capped [] (book_paragraphs e file)
      \<and> (length (textPreview r) < 15000
         \<or> (\<exists>before paragraph.
               paragraph \<in> set (book_paragraphs e file)
               \<and> textPreview r = before @ paragraph @ [CHR 0x0A]
               \<and> length before < 15000))
      \<and> ((\<forall>p\<in>set (book_paragraphs e file). length p \<le> L) \<longrightarrow>
            length (textPreview r) \<le> 15000 + L)"
proof (intro allI impI)
  fix r
  assume "fst (convertEpubToPdf e fs file) = Inr r"
  then have "fst (convert_archive e file) = Inr r" by (rule convert_result)
  then have eq: "textPreview r = foldl append_capped [] (book_paragraphs e file)"
    by (rule preview_convert_archive)
  show "textPreview r = foldl append_capped [] (book_paragraphs e file)
      \<and> (length (textPreview r) < 15000
         \<or> (\<exists>before paragraph.
               paragraph \<in> set (book_paragraphs e file)
               \<and> textPreview r = before @ paragraph @ [CHR 0x0A]
               \<and> length before < 15000))
      \<and> ((\<forall>p\<in>set (book_paragraphs e file). length p \<le> L) \<longrightarrow>
            length (textPreview r) \<le> 15000 + L)"
    using eq capped_fold [of "book_paragraphs e file"]
      capped_fold_bound [of "book_paragraphs e file" L]
    by simp
qed

lemma demo_paragraphs: "book_paragraphs demo_env [] = [''One'', ''a b'', ''Two'', ''a b'']"
  by (simp add: book_paragraphs_def chapter_paragraphs_def href_paragraphs_def opf_dir_def
      flushed_paragraph_def demo_fields demo_entries demo_container_path demo_spine
      demo_lookups demo_html_def demo_items demo_texts del: traverse.simps)

theorem preview_capped_by_paragraph_witness:
  "fst (convertEpubToPdf demo_env cached_font [])
     = Inr \<lparr>blob =
              [DrawText ''One'' 20 27, DrawText ''a b'' 20 (75 / 2),
               DrawImage ''PNGDATA'' ''PNG'' 20 (89 / 2) 170 100,
               DrawText ''Two'' 20 176, DrawText ''a b'' 20 (373 / 2), AddPage,
               DrawImage ''PNGDATA'' ''PNG'' 20 20 170 100],
             textPreview = ''One\<newline>a b\<newline>Two\<newline>a b\<newline>''\<rparr>
   \<and> book_paragraphs demo_env [] = [''One'', ''a b'', ''Two'', ''a b'']
   \<and> length ''One'' \<le> 3 \<and> length ''a b'' \<le> 3 \<and> length ''Two'' \<le> 3
   \<and> ''One\<newline>a b\<newline>Two\<newline>a b\<newline>''
       = foldl append_capped [] [''One'', ''a b'', ''Two'', ''a b'']
   \<and> length ''One\<newline>a b\<newline>Two\<newline>a b\<newline>'' \<le> 15000 + 3"
  using preview_capped_by_paragraph [of demo_env cached_font "[]" 3] demo_conversion
    demo_paragraphs
  by (simp add: append_capped_def)

lemma no_space_collapse:
  "\<forall>c\<in>set s. \<not> is_space c \<Longrightarrow> collapse_from prev s = s"
  by (induction s arbitrary: prev) simp_all

lemma no_space_trim: "s \<noteq> [] \<Longrightarrow> \<not> is_space (hd s) \<Longrightarrow> \<not> is_space (last s) \<Longrightarrow> trim s = s"
proof -
  assume a: "s \<noteq> []" "\<not> is_space (hd s)" "\<not> is_space (last s)"
  then have "dropWhile is_space s = s" by (cases s) simp_all
  moreover have "dropWhile is_space (rev s) = rev s" using a by (cases s rule: rev_cases) simp_all
  ultimately show ?thesis by (simp add: trim_def)
qed

lemma long_paragraph:
  "collapse_ws (replicate 15000 CHR ''a'') = replicate 15000 CHR ''a''
   \<and> trim (replicate 15000 CHR ''a'') = replicate 15000 CHR ''a''"
proof -
  have "\<not> is_space CHR ''a''" by (simp add: is_space_def)
  then show ?thesis
    by (simp add: collapse_ws_def no_space_collapse no_space_trim hd_replicate last_replicate)
qed

lemma long_spine:
  "spine_ids (parseXml long_env ''opf'') = [''c1'']
   \<and> manifest_get long_env (build_manifest (parseXml long_env ''opf'')) ''c1''
       = JsString ''ch1.xhtml''"
  by (simp add: long_env_def demo_env_def spine_ids_def build_manifest_def tagged_or_fallback_def
      getElementsByTagName_def doc_elements_def idref_of_def add_item_def getAttribute_def
      truthy_def manifest_get_def)

lemma long_chapter:
  "fullTextPreview (render_chapter long_env demo_archive ''ch1.xhtml'' ''One''
      \<lparr>y_pos = 20, ops = [], fullTextPreview = []\<rparr>)
     = replicate 15000 CHR ''a'' @ [CHR 0x0A]"
  by (simp add: render_chapter_def long_env_def Let_def toLowerCase_def lower_char_def
      is_heading_def block_tags_def skipped_tags_def long_paragraph
      preview_flush_text preview_addNewPage split: prod.splits)

lemma long_archive: "loadAsync long_env file = Some demo_archive"
  by (simp add: long_env_def demo_env_def)

lemma long_conversion:
  "fst (convertEpubToPdf long_env cached_font [])
     = Inr \<lparr>blob = ops (render_chapter long_env demo_archive ''ch1.xhtml'' ''One''
                          \<lparr>y_pos = 20, ops = [], fullTextPreview = []\<rparr>),
            textPreview = replicate 15000 CHR ''a'' @ [CHR 0x0A]\<rparr>"
  by (simp add: convert_eval long_archive demo_container_path long_spine
      demo_entries long_chapter Let_def)

text \<open>
  The claim as stated, that the preview never has more than 15000 characters, does not
  hold: for a book whose only paragraph has 15000 characters the preview is that
  paragraph and a newline, 15001 characters.
\<close>

theorem preview_exceeds_cap:
  "\<not> isl (fst (convertEpubToPdf long_env cached_font []))
   \<and> textPreview (projr (fst (convertEpubToPdf long_env cached_font [])))
       = replicate 15000 CHR ''a'' @ [CHR 0x0A]
   \<and> length (textPreview (projr (fst (convertEpubToPdf long_env cached_font [])))) = 15001
   \<and> \<not> length (textPreview (projr (fst (convertEpubToPdf long_env cached_font [])))) \<le> 15000"
  by (simp add: long_conversion)

end
